theory Spec2Isabelle
  imports Complex_Main "HOL-Library.AList" "HOL-Library.List_Lexorder" "HOL-Library.Char_ord"
begin

section \<open>Python values used by the services\<close>

text \<open>
  A Python \<open>dict\<close> is an association list in insertion order whose keys are pairwise
  distinct: \<open>d[k]\<close> is \<open>getitem\<close>, \<open>d.get(k)\<close> is \<open>map_of\<close>, \<open>d[k] = v\<close> is
  \<open>AList.update\<close> (an existing key keeps its position, a new key goes to the end) and
  \<open>len(d)\<close> is \<open>length\<close>.

  A Python \<open>set\<close> is the list of its elements in the order a \<open>for\<close> loop visits them,
  without duplicates. That order is not specified by Python, so every statement below
  compares such lists through \<open>set\<close> only, as \<open>==\<close> and \<open>!=\<close> on Python sets do.

  The true division \<open>/\<close> of two Python ints and the float comparisons are taken in exact
  rational arithmetic.
\<close>

datatype error = KeyError | ZeroDivisionError | ValueError string | Exception string

type_synonym ('k, 'v) dict = "('k \<times> 'v) list"

type_synonym 'a pyset = "'a list"

definition getitem :: "('k, 'v) dict \<Rightarrow> 'k \<Rightarrow> error + 'v" where
  "getitem d k = (case map_of d k of None \<Rightarrow> Inl KeyError | Some v \<Rightarrow> Inr v)"

definition py_div :: "int \<Rightarrow> int \<Rightarrow> error + rat" where
  "py_div a b = (if b = 0 then Inl ZeroDivisionError else Inr (of_int a / of_int b))"

section \<open>Label propagation (label\_propagation\_service.py)\<close>

text \<open>\<open>neighbor_labels[label] += 1\<close> on a \<open>defaultdict(int)\<close>.\<close>

definition tally_label :: "'l \<Rightarrow> ('l, int) dict \<Rightarrow> ('l, int) dict" where
  "tally_label label neighbor_labels =
     AList.update label
       ((case map_of neighbor_labels label of None \<Rightarrow> 0 | Some c \<Rightarrow> c) + 1)
       neighbor_labels"

text \<open>
  The body of \<open>for neighbor in neighbors\<close>: a neighbour that has no entry in
  \<open>current_labels\<close>, or an empty label set, is skipped.
\<close>

definition tally_neighbor ::
  "('p, 'l pyset) dict \<Rightarrow> 'p \<Rightarrow> ('l, int) dict \<Rightarrow> ('l, int) dict" where
  "tally_neighbor current_labels neighbor neighbor_labels =
     (case map_of current_labels neighbor of
        None \<Rightarrow> neighbor_labels
      | Some labels \<Rightarrow>
          if labels = [] then neighbor_labels
          else fold tally_label labels neighbor_labels)"

definition collect_neighbor_labels ::
  "('p, 'l pyset) dict \<Rightarrow> 'p list \<Rightarrow> ('l, int) dict" where
  "collect_neighbor_labels current_labels neighbors =
     fold (tally_neighbor current_labels) neighbors []"

text \<open>
  \<open>sorted(neighbor_labels.items(), key=lambda x: x[1], reverse=True)\<close>, keeping the
  labels only. Python's sort is stable, and with \<open>reverse=True\<close> it reverses the list,
  sorts it and reverses it again.
\<close>

definition most_common_labels :: "('l, int) dict \<Rightarrow> 'l list" where
  "most_common_labels neighbor_labels =
     map fst (rev (sort_key snd (rev neighbor_labels)))"

text \<open>
  The body of \<open>for protein in proteins\<close>, on the pair \<open>(new_labels, changes)\<close>. Every
  read \<open>current_labels[protein]\<close> can raise \<open>KeyError\<close>; the branch for a protein
  without neighbours ends in \<open>continue\<close> and never counts a change.
\<close>

definition lp_protein ::
  "('p, 'p list) dict \<Rightarrow> ('p, 'l pyset) dict \<Rightarrow> 'p \<Rightarrow>
   ('p, 'l pyset) dict \<times> int \<Rightarrow> error + (('p, 'l pyset) dict \<times> int)" where
  "lp_protein graph current_labels protein acc =
     (case acc of (new_labels, changes) \<Rightarrow>
      (case getitem graph protein of
        Inl e \<Rightarrow> Inl e
      | Inr neighbors \<Rightarrow>
          if neighbors = [] then
            (case getitem current_labels protein of
               Inl e \<Rightarrow> Inl e
             | Inr own \<Rightarrow> Inr (AList.update protein own new_labels, changes))
          else
            (let neighbor_labels = collect_neighbor_labels current_labels neighbors in
             case (if neighbor_labels \<noteq> []
                   then Inr (most_common_labels neighbor_labels)
                   else getitem current_labels protein) of
               Inl e \<Rightarrow> Inl e
             | Inr new_label_set \<Rightarrow>
                 (case getitem current_labels protein of
                    Inl e \<Rightarrow> Inl e
                  | Inr own \<Rightarrow>
                      Inr (AList.update protein new_label_set new_labels,
                           if set own \<noteq> set new_label_set then changes + 1 else changes)))))"

fun lp_sweep ::
  "('p, 'p list) dict \<Rightarrow> ('p, 'l pyset) dict \<Rightarrow> 'p list \<Rightarrow>
   ('p, 'l pyset) dict \<times> int \<Rightarrow> error + (('p, 'l pyset) dict \<times> int)" where
  "lp_sweep graph current_labels [] acc = Inr acc"
| "lp_sweep graph current_labels (protein # proteins) acc =
     (case lp_protein graph current_labels protein acc of
        Inl e \<Rightarrow> Inl e
      | Inr acc' \<Rightarrow> lp_sweep graph current_labels proteins acc')"

text \<open>One pass of the outer loop body up to the tally of changes.\<close>

definition lp_iteration ::
  "('p, 'p list) dict \<Rightarrow> ('p, 'l pyset) dict \<Rightarrow> error + (('p, 'l pyset) dict \<times> int)" where
  "lp_iteration graph current_labels =
     lp_sweep graph current_labels (map fst graph) ([], 0)"

text \<open>
  \<open>for iteration in range(max_iterations)\<close>, from the value \<open>iteration\<close> on. The
  division \<open>changes / len(proteins)\<close> raises on an empty graph.
\<close>

function lp_loop ::
  "('p, 'p list) dict \<Rightarrow> ('p, 'l pyset) dict \<Rightarrow> int \<Rightarrow> rat \<Rightarrow> int \<Rightarrow>
   error + (('p, 'l list) dict \<times> int \<times> bool)" where
  "lp_loop graph current_labels max_iterations threshold iteration =
     (if iteration < max_iterations then
        (case lp_iteration graph current_labels of
           Inl e \<Rightarrow> Inl e
         | Inr (new_labels, changes) \<Rightarrow>
             (case py_div changes (int (length (map fst graph))) of
                Inl e \<Rightarrow> Inl e
              | Inr convergence_rate \<Rightarrow>
                  if convergence_rate < threshold
                  then Inr (new_labels, iteration + 1, True)
                  else lp_loop graph new_labels max_iterations threshold (iteration + 1)))
      else Inr (current_labels, max_iterations, False))"
  by pat_completeness auto
termination
  by (relation "measure (\<lambda>(g, c, m, t, i). nat (m - i))") auto

definition label_propagation ::
  "('p, 'p list) dict \<Rightarrow> ('p, 'l list) dict \<Rightarrow> int \<Rightarrow> rat \<Rightarrow>
   error + (('p, 'l list) dict \<times> int \<times> bool)" where
  "label_propagation graph initial_labels max_iterations threshold =
     lp_loop graph (map (\<lambda>(p, labels). (p, remdups labels)) initial_labels)
       max_iterations threshold 0"


subsection \<open>The update rule and the trace of the loop, for the statements below\<close>

text \<open>The union of the label sets of the neighbours that have an entry.\<close>

definition neighbor_union :: "('p, 'l pyset) dict \<Rightarrow> 'p list \<Rightarrow> 'l set" where
  "neighbor_union current_labels neighbors =
     (\<Union>n \<in> set neighbors.
        case map_of current_labels n of None \<Rightarrow> {} | Some labels \<Rightarrow> set labels)"

text \<open>
  The value \<open>lp_protein\<close> stores for a protein with the given neighbours and label set,
  and what it adds to \<open>changes\<close>.
\<close>

definition new_label_set_of ::
  "('p, 'l pyset) dict \<Rightarrow> 'p list \<Rightarrow> 'l pyset \<Rightarrow> 'l pyset" where
  "new_label_set_of current_labels neighbors own =
     (if neighbors = [] then own
      else if collect_neighbor_labels current_labels neighbors \<noteq> []
           then most_common_labels (collect_neighbor_labels current_labels neighbors)
           else own)"

definition changed_of :: "('p, 'l pyset) dict \<Rightarrow> 'p list \<Rightarrow> 'l pyset \<Rightarrow> int" where
  "changed_of current_labels neighbors own =
     (if neighbors \<noteq> [] \<and> set own \<noteq> set (new_label_set_of current_labels neighbors own)
      then 1 else 0)"

definition lp_new :: "('p, 'p list) dict \<Rightarrow> ('p, 'l pyset) dict \<Rightarrow> 'p \<Rightarrow> 'l pyset" where
  "lp_new graph current_labels p =
     new_label_set_of current_labels (the (map_of graph p)) (the (map_of current_labels p))"

definition lp_changed :: "('p, 'p list) dict \<Rightarrow> ('p, 'l pyset) dict \<Rightarrow> 'p \<Rightarrow> int" where
  "lp_changed graph current_labels p =
     changed_of current_labels (the (map_of graph p)) (the (map_of current_labels p))"

text \<open>
  \<open>lp_run graph current_labels i\<close>: the pair \<open>(new_labels, changes)\<close> that the pass with
  loop variable \<open>iteration = i\<close> computes when no earlier pass stops the loop.
\<close>

fun lp_run ::
  "('p, 'p list) dict \<Rightarrow> ('p, 'l pyset) dict \<Rightarrow> nat \<Rightarrow>
   error + (('p, 'l pyset) dict \<times> int)" where
  "lp_run graph current_labels 0 = lp_iteration graph current_labels"
| "lp_run graph current_labels (Suc n) =
     (case lp_iteration graph current_labels of
        Inl e \<Rightarrow> Inl e
      | Inr (new_labels, changes) \<Rightarrow> lp_run graph new_labels n)"

definition convergence_rate :: "('p, 'p list) dict \<Rightarrow> int \<Rightarrow> rat" where
  "convergence_rate graph changes = of_int changes / of_int (int (length graph))"

subsection \<open>Confidence scores\<close>

definition confidence_of :: "('p, 'l list) dict \<Rightarrow> 'p \<Rightarrow> 'l list \<Rightarrow> rat" where
  "confidence_of initial_labels protein_id labels =
     (if labels = [] then 0
      else if (case map_of initial_labels protein_id of None \<Rightarrow> False | Some seed \<Rightarrow> seed \<noteq> [])
           then 1 else 1 / 2)"

definition calculate_confidence_scores ::
  "('p, 'l list) dict \<Rightarrow> ('p, 'l list) dict \<Rightarrow> ('p, rat) dict" where
  "calculate_confidence_scores final_labels initial_labels =
     fold (\<lambda>(protein_id, labels) confidence_scores.
             AList.update protein_id (confidence_of initial_labels protein_id labels)
               confidence_scores)
       final_labels []"

section \<open>The stores (neo4j\_service.py, mongodb\_service.py)\<close>

text \<open>
  The two databases are outside the program. What they answer is a parameter of the
  model (\<open>label_rows\<close>, \<open>mongo_has\<close>), and every statement sent to them is appended to
  \<open>calls\<close>. \<open>driver\<close> says that \<open>neo4j_service.driver\<close> is not \<open>None\<close>, \<open>mongo_connected\<close>
  that the MongoDB collections are not \<open>None\<close>.
\<close>

record 'p keyed =
  protein_id :: 'p

record ('p, 'l) protein_data = "'p keyed" +
  labels :: "'l list"
  neighbors :: "'p list"
  original_labels :: "'l list option"

record ('p, 'l) node_row =
  row_protein_id :: 'p
  row_labels :: "'l list option"
  row_neighbors :: "'p list option"

datatype annotation_type = GO | EC | INTERPRO

datatype ('p, 'l) store_call =
    LabelQuery string
  | SetLabels 'p "'l list" string
  | FindProtein 'p
  | ReplaceAnnotations 'p "(annotation_type \<times> 'l \<times> string) list"

record ('p, 'l) stores =
  driver :: bool
  label_rows :: "string \<Rightarrow> ('p, 'l) node_row list"
  mongo_connected :: bool
  mongo_has :: "'p \<Rightarrow> bool"
  calls :: "('p, 'l) store_call list"

definition driver_not_initialized :: error where
  "driver_not_initialized = Exception ''Neo4j driver not initialized''"

definition attribute_error :: error where
  "attribute_error =
     ValueError (''Attribute must be '' @ [CHR 0x27] @ ''ec'' @ [CHR 0x27] @ '' or '' @
                 [CHR 0x27] @ ''go'' @ [CHR 0x27])"

definition mongo_not_connected :: error where
  "mongo_not_connected = Exception ''MongoDB not connected''"

text \<open>The dict built from one record of the query: \<open>record["labels"] or []\<close>.\<close>

definition to_protein_data :: "('p, 'l) node_row \<Rightarrow> ('p, 'l) protein_data" where
  "to_protein_data r =
     \<lparr>protein_id = row_protein_id r,
      labels = (case row_labels r of None \<Rightarrow> [] | Some ls \<Rightarrow> ls),
      neighbors = (case row_neighbors r of None \<Rightarrow> [] | Some ns \<Rightarrow> ns),
      original_labels = None\<rparr>"

definition run_label_query ::
  "('p, 'l) stores \<Rightarrow> string \<Rightarrow> (error + ('p, 'l) protein_data list) \<times> ('p, 'l) stores" where
  "run_label_query st property =
     (Inr (map to_protein_data (label_rows st property)),
      st\<lparr>calls := calls st @ [LabelQuery property]\<rparr>)"

definition get_proteins_for_label_propagation ::
  "('p, 'l) stores \<Rightarrow> string \<Rightarrow> (error + ('p, 'l) protein_data list) \<times> ('p, 'l) stores" where
  "get_proteins_for_label_propagation st attribute =
     (if \<not> driver st then (Inl driver_not_initialized, st)
      else if attribute = ''ec'' then run_label_query st ''ec_numbers''
      else if attribute = ''go'' then run_label_query st ''go_terms''
      else (Inl attribute_error, st))"

definition neo4j_update_protein_labels ::
  "('p, 'l) stores \<Rightarrow> 'p \<Rightarrow> 'l list \<Rightarrow> string \<Rightarrow> (error + unit) \<times> ('p, 'l) stores" where
  "neo4j_update_protein_labels st pid ls attribute =
     (if \<not> driver st then (Inl driver_not_initialized, st)
      else if attribute = ''ec''
        then (Inr (), st\<lparr>calls := calls st @ [SetLabels pid ls ''ec_numbers'']\<rparr>)
      else if attribute = ''go''
        then (Inr (), st\<lparr>calls := calls st @ [SetLabels pid ls ''go_terms'']\<rparr>)
      else (Inl attribute_error, st))"

definition get_protein_by_id ::
  "('p, 'l) stores \<Rightarrow> 'p \<Rightarrow> (error + bool) \<times> ('p, 'l) stores" where
  "get_protein_by_id st pid =
     (if \<not> mongo_connected st then (Inl mongo_not_connected, st)
      else (Inr (mongo_has st pid), st\<lparr>calls := calls st @ [FindProtein pid]\<rparr>))"

definition update_protein_annotations ::
  "('p, 'l) stores \<Rightarrow> 'p \<Rightarrow> (annotation_type \<times> 'l \<times> string) list \<Rightarrow>
   (error + unit) \<times> ('p, 'l) stores" where
  "update_protein_annotations st pid annotations =
     (if \<not> mongo_connected st then (Inl mongo_not_connected, st)
      else (Inr (), st\<lparr>calls := calls st @ [ReplaceAnnotations pid annotations]\<rparr>))"

section \<open>The label propagation service\<close>

definition build_graph :: "('p, 'l) protein_data list \<Rightarrow> ('p, 'p list) dict" where
  "build_graph proteins_data =
     fold (\<lambda>protein graph. AList.update (protein_id protein) (neighbors protein) graph)
       proteins_data []"

definition extract_initial_labels :: "('p, 'l) protein_data list \<Rightarrow> ('p, 'l list) dict" where
  "extract_initial_labels proteins_data =
     fold (\<lambda>protein initial_labels.
             AList.update (protein_id protein)
               (if labels protein \<noteq> [] then labels protein else []) initial_labels)
       proteins_data []"

definition new_annotations_of :: "string \<Rightarrow> 'l list \<Rightarrow> (annotation_type \<times> 'l \<times> string) list" where
  "new_annotations_of attribute ls =
     (if attribute = ''ec'' then map (\<lambda>label. (EC, label, ''label_propagation'')) ls
      else if attribute = ''go'' then map (\<lambda>label. (GO, label, ''label_propagation'')) ls
      else [])"

fun update_protein_labels ::
  "('p, 'l) stores \<Rightarrow> ('p, 'l list) dict \<Rightarrow> string \<Rightarrow> (error + unit) \<times> ('p, 'l) stores" where
  "update_protein_labels st [] attribute = (Inr (), st)"
| "update_protein_labels st ((pid, ls) # final_labels) attribute =
     (case neo4j_update_protein_labels st pid ls attribute of
        (Inl e, st1) \<Rightarrow> (Inl e, st1)
      | (Inr u, st1) \<Rightarrow>
          (case get_protein_by_id st1 pid of
             (Inl e, st2) \<Rightarrow> (Inl e, st2)
           | (Inr protein, st2) \<Rightarrow>
               if protein then
                 (case update_protein_annotations st2 pid (new_annotations_of attribute ls) of
                    (Inl e, st3) \<Rightarrow> (Inl e, st3)
                  | (Inr u', st3) \<Rightarrow> update_protein_labels st3 final_labels attribute)
               else update_protein_labels st2 final_labels attribute))"

record request =
  attribute :: string
  max_iterations :: int
  threshold :: rat
  min_similarity :: rat

record ('p, 'l) propagation_result =
  iterations_completed :: int
  converged :: bool
  annotated_proteins :: int
  confidence_scores :: "('p, rat) dict"
  predicted_labels :: "('p, 'l list) dict"

definition no_proteins_error :: error where
  "no_proteins_error = ValueError ''No proteins found for label propagation''"

definition propagate_labels ::
  "('p, 'l) stores \<Rightarrow> request \<Rightarrow>
   (error + ('p, 'l) propagation_result) \<times> ('p, 'l) stores" where
  "propagate_labels st req =
     (case get_proteins_for_label_propagation st (attribute req) of
        (Inl e, st1) \<Rightarrow> (Inl e, st1)
      | (Inr proteins_data, st1) \<Rightarrow>
          if proteins_data = [] then (Inl no_proteins_error, st1)
          else
            (let protein_graph = build_graph proteins_data;
                 initial_labels = extract_initial_labels proteins_data
             in case label_propagation protein_graph initial_labels
                       (max_iterations req) (threshold req) of
                  Inl e \<Rightarrow> (Inl e, st1)
                | Inr (final_labels, iterations, conv) \<Rightarrow>
                    (case update_protein_labels st1 final_labels (attribute req) of
                       (Inl e, st2) \<Rightarrow> (Inl e, st2)
                     | (Inr u, st2) \<Rightarrow>
                         (Inr \<lparr>iterations_completed = iterations,
                               converged = conv,
                               annotated_proteins =
                                 int (length (filter (\<lambda>(p, ls). ls \<noteq> []) final_labels)),
                               confidence_scores =
                                 calculate_confidence_scores final_labels initial_labels,
                               predicted_labels = final_labels\<rparr>, st2))))"

subsection \<open>Quality evaluation\<close>

text \<open>
  \<open>random.sample(population, k)\<close> raises \<open>ValueError\<close> when \<open>k\<close> is negative or larger
  than the population, and otherwise returns the elements at \<open>k\<close> pairwise different
  positions. The positions drawn are the parameter \<open>rnd\<close>, a function of the population
  size and \<open>k\<close>; \<open>valid_sample\<close> says that it behaves as the library does.
\<close>

definition sample_error :: error where
  "sample_error = ValueError ''Sample larger than population or is negative''"

definition random_sample ::
  "(nat \<Rightarrow> nat \<Rightarrow> nat list) \<Rightarrow> 'a list \<Rightarrow> int \<Rightarrow> error + 'a list" where
  "random_sample rnd population k =
     (if k < 0 \<or> int (length population) < k then Inl sample_error
      else Inr (map (\<lambda>i. population ! i) (rnd (length population) (nat k))))"

definition valid_sample :: "(nat \<Rightarrow> nat \<Rightarrow> nat list) \<Rightarrow> bool" where
  "valid_sample rnd \<longleftrightarrow>
     (\<forall>n k. k \<le> n \<longrightarrow>
        length (rnd n k) = k \<and> distinct (rnd n k) \<and> (\<forall>i \<in> set (rnd n k). i < n))"

text \<open>
  The dicts of \<open>proteins_data\<close> are shared by \<open>initially_annotated\<close>, \<open>holdout_proteins\<close>
  and the shallow copy \<open>modified_data\<close>: the model keeps them in one list and the other
  lists hold positions in it. \<open>mask_holdout\<close> is the body of
  \<open>for protein in holdout_proteins\<close>: the first dict with the same \<open>protein_id\<close> gets the
  key \<open>original_labels\<close> and an empty \<open>labels\<close>.
\<close>

fun first_with_id :: "('p, 'l) protein_data list \<Rightarrow> 'p \<Rightarrow> nat \<Rightarrow> nat option" where
  "first_with_id [] pid j = None"
| "first_with_id (p # ps) pid j =
     (if protein_id p = pid then Some j else first_with_id ps pid (Suc j))"

definition mask_protein :: "('p, 'l) protein_data \<Rightarrow> ('p, 'l) protein_data" where
  "mask_protein p = p\<lparr>labels := [], original_labels := Some (labels p)\<rparr>"

definition mask_holdout ::
  "nat \<Rightarrow> ('p, 'l) protein_data list \<Rightarrow> ('p, 'l) protein_data list" where
  "mask_holdout h heap =
     (case first_with_id heap (protein_id (heap ! h)) 0 of
        None \<Rightarrow> heap
      | Some j \<Rightarrow> heap[j := mask_protein (heap ! j)])"

text \<open>\<open>final_labels.get(protein_id, [])\<close> for the \<open>protein_id\<close> of a dict.\<close>

definition prediction_of :: "('p, 'l list) dict \<Rightarrow> ('p, 'x) keyed_scheme \<Rightarrow> 'l list" where
  "prediction_of final_labels p =
     (case map_of final_labels (protein_id p) of None \<Rightarrow> [] | Some ls \<Rightarrow> ls)"

text \<open>
  The body of the second \<open>for protein in holdout_proteins\<close>, on the pair
  \<open>(correct_predictions, total_predictions)\<close>.
\<close>

fun count_predictions ::
  "('p, 'l) protein_data list \<Rightarrow> ('p, 'l list) dict \<Rightarrow> nat list \<Rightarrow> int \<times> int \<Rightarrow>
   error + (int \<times> int)" where
  "count_predictions heap final_labels [] acc = Inr acc"
| "count_predictions heap final_labels (h # hs) acc =
     (case acc of (correct_predictions, total_predictions) \<Rightarrow>
      (case original_labels (heap ! h) of
         None \<Rightarrow> Inl KeyError
       | Some original \<Rightarrow>
           (let predicted_labels = remdups (prediction_of final_labels (heap ! h))
            in if predicted_labels \<noteq> [] then
                 count_predictions heap final_labels hs
                   (if \<exists>x \<in> set (remdups original). x \<in> set predicted_labels
                    then correct_predictions + 1 else correct_predictions,
                    total_predictions + 1)
               else count_predictions heap final_labels hs
                      (correct_predictions, total_predictions))))"

record evaluation =
  holdout_size :: int
  accuracy :: rat
  coverage :: rat
  correct_predictions :: int
  total_predictions :: int

datatype evaluation_result = EvaluationError string | Evaluation evaluation

definition evaluate_propagation_quality ::
  "('p, 'l) stores \<Rightarrow> string \<Rightarrow> (nat \<Rightarrow> nat \<Rightarrow> nat list) \<Rightarrow>
   (error + evaluation_result) \<times> ('p, 'l) stores" where
  "evaluate_propagation_quality st attr rnd =
     (case get_proteins_for_label_propagation st attr of
        (Inl e, st1) \<Rightarrow> (Inl e, st1)
      | (Inr proteins_data, st1) \<Rightarrow>
          (let initially_annotated =
                 filter (\<lambda>i. labels (proteins_data ! i) \<noteq> []) [0..<length proteins_data]
           in if initially_annotated = [] then
                (Inr (EvaluationError ''No initially annotated proteins found for evaluation''),
                 st1)
              else
                (case random_sample rnd initially_annotated
                        (max 1 (int (length initially_annotated) div 5)) of
                   Inl e \<Rightarrow> (Inl e, st1)
                 | Inr holdout_proteins \<Rightarrow>
                     (let modified_data = fold mask_holdout holdout_proteins proteins_data;
                          graph = build_graph modified_data;
                          initial_labels = extract_initial_labels modified_data
                      in case label_propagation graph initial_labels 100 (1 / 100) of
                           Inl e \<Rightarrow> (Inl e, st1)
                         | Inr (final_labels, iterations, conv) \<Rightarrow>
                             (case count_predictions modified_data final_labels
                                     holdout_proteins (0, 0) of
                                Inl e \<Rightarrow> (Inl e, st1)
                              | Inr (correct_count, total_count) \<Rightarrow>
                                  (case (if total_count > 0
                                         then py_div correct_count total_count else Inr 0) of
                                     Inl e \<Rightarrow> (Inl e, st1)
                                   | Inr acc \<Rightarrow>
                                       (case py_div total_count (int (length holdout_proteins)) of
                                          Inl e \<Rightarrow> (Inl e, st1)
                                        | Inr cov \<Rightarrow>
                                            (Inr (Evaluation
                                               \<lparr>holdout_size = int (length holdout_proteins),
                                                accuracy = acc,
                                                coverage = cov,
                                                correct_predictions = correct_count,
                                                total_predictions = total_count\<rparr>), st1))))))))"


text \<open>
  The evaluation as the specification words it, for the statements below and
  independent of the functions above: a held-out protein counts as a prediction when
  the final assignment gives it a non-empty label list, and as correct when that list
  has a label in common with the protein's labels in the snapshot as fetched.
\<close>

definition is_prediction :: "('p, 'l list) dict \<Rightarrow> ('p, 'l) protein_data \<Rightarrow> bool" where
  "is_prediction final_labels p =
     (case map_of final_labels (protein_id p) of None \<Rightarrow> False | Some ls \<Rightarrow> ls \<noteq> [])"

definition is_correct :: "('p, 'l list) dict \<Rightarrow> ('p, 'l) protein_data \<Rightarrow> bool" where
  "is_correct final_labels p =
     (case map_of final_labels (protein_id p) of
        None \<Rightarrow> False
      | Some ls \<Rightarrow> set ls \<inter> set (labels p) \<noteq> {})"

definition predictions_made :: "('p, 'l list) dict \<Rightarrow> ('p, 'l) protein_data list \<Rightarrow> int" where
  "predictions_made final_labels holdout =
     int (length (filter (is_prediction final_labels) holdout))"

definition correct_made :: "('p, 'l list) dict \<Rightarrow> ('p, 'l) protein_data list \<Rightarrow> int" where
  "correct_made final_labels holdout =
     int (length (filter (is_correct final_labels) holdout))"

subsection \<open>A store for the examples\<close>

text \<open>
  The chain A - B - C of the specification's scenario, with enzyme numbers on A and C
  and no ontology terms at all: its graph, its seed labels, the labels after the first
  pass and the final labels, and the store that holds it.
\<close>

definition chain_graph :: "(string, string list) dict" where
  "chain_graph = [(''A'', [''B'']), (''B'', [''A'', ''C'']), (''C'', [''B''])]"

definition chain_labels :: "(string, string list) dict" where
  "chain_labels = [(''A'', [''1.1.1.1'']), (''B'', []), (''C'', [''2.2.2.2''])]"

definition chain_first :: "(string, string list) dict" where
  "chain_first =
     [(''A'', [''1.1.1.1'']), (''B'', [''1.1.1.1'', ''2.2.2.2'']), (''C'', [''2.2.2.2''])]"

definition chain_final :: "(string, string list) dict" where
  "chain_final =
     [(''A'', [''1.1.1.1'', ''2.2.2.2'']), (''B'', [''1.1.1.1'', ''2.2.2.2'']),
      (''C'', [''1.1.1.1'', ''2.2.2.2''])]"

definition chain_rows :: "string \<Rightarrow> (string, string) node_row list" where
  "chain_rows property =
     (if property = ''ec_numbers'' then
        [\<lparr>row_protein_id = ''A'', row_labels = Some [''1.1.1.1''], row_neighbors = Some [''B'']\<rparr>,
         \<lparr>row_protein_id = ''B'', row_labels = None, row_neighbors = Some [''A'', ''C'']\<rparr>,
         \<lparr>row_protein_id = ''C'', row_labels = Some [''2.2.2.2''], row_neighbors = Some [''B'']\<rparr>]
      else [])"

definition chain_stores :: "(string, string) stores" where
  "chain_stores =
     \<lparr>driver = True, label_rows = chain_rows, mongo_connected = True,
      mongo_has = (\<lambda>pid. True), calls = []\<rparr>"

text \<open>Two neighbours A - B that both carry the enzyme number 1.1.1.1.\<close>

definition pair_rows :: "string \<Rightarrow> (string, string) node_row list" where
  "pair_rows property =
     (if property = ''ec_numbers'' then
        [\<lparr>row_protein_id = ''A'', row_labels = Some [''1.1.1.1''], row_neighbors = Some [''B'']\<rparr>,
         \<lparr>row_protein_id = ''B'', row_labels = Some [''1.1.1.1''], row_neighbors = Some [''A'']\<rparr>]
      else [])"

definition pair_stores :: "(string, string) stores" where
  "pair_stores =
     \<lparr>driver = True, label_rows = pair_rows, mongo_connected = True,
      mongo_has = (\<lambda>pid. True), calls = []\<rparr>"

text \<open>A draw that takes the first \<open>k\<close> positions.\<close>

definition first_k :: "nat \<Rightarrow> nat \<Rightarrow> nat list" where
  "first_k n k = [0..<k]"

section \<open>Graph construction (graph\_service.py, neo4j\_service.py)\<close>

subsection \<open>Python set operations on the list of elements\<close>

definition py_set :: "'a list \<Rightarrow> 'a pyset" where
  "py_set xs = remdups xs"

definition set_add :: "'a \<Rightarrow> 'a pyset \<Rightarrow> 'a pyset" where
  "set_add x s = (if x \<in> set s then s else s @ [x])"

definition set_intersection :: "'a pyset \<Rightarrow> 'a pyset \<Rightarrow> 'a pyset" where
  "set_intersection a b = filter (\<lambda>x. x \<in> set b) a"

definition set_union :: "'a pyset \<Rightarrow> 'a pyset \<Rightarrow> 'a pyset" where
  "set_union a b = a @ filter (\<lambda>x. x \<notin> set a) b"

subsection \<open>The inverted index and the pairs it yields\<close>

record ('p, 'd) graph_protein = "'p keyed" +
  domains :: "'d list"

record ('p, 'd) similarity_edge =
  source_protein_id :: 'p
  target_protein_id :: 'p
  weight :: rat
  jaccard_similarity :: rat
  shared_domains :: "'d list"
  shared_domain_count :: int

text \<open>\<open>domain_index[domain].append(protein_id)\<close> on a \<open>defaultdict(list)\<close>.\<close>

definition index_append :: "'p \<Rightarrow> 'd \<Rightarrow> ('d, 'p list) dict \<Rightarrow> ('d, 'p list) dict" where
  "index_append pid domain domain_index =
     AList.update domain
       ((case map_of domain_index domain of None \<Rightarrow> [] | Some l \<Rightarrow> l) @ [pid])
       domain_index"

definition build_domain_index :: "('p, 'd) graph_protein list \<Rightarrow> ('d, 'p list) dict" where
  "build_domain_index proteins_data =
     fold (\<lambda>protein domain_index.
             fold (index_append (protein_id protein)) (py_set (domains protein)) domain_index)
       proteins_data []"

definition protein_domains_of :: "('p, 'd) graph_protein list \<Rightarrow> ('p, 'd pyset) dict" where
  "protein_domains_of proteins_data =
     fold (\<lambda>protein protein_domains.
             AList.update (protein_id protein) (py_set (domains protein)) protein_domains)
       proteins_data []"

text \<open>\<open>for i in range(len(l)): for j in range(i + 1, len(l))\<close>: the pairs \<open>(l[i], l[j])\<close>.\<close>

fun index_pairs :: "'a list \<Rightarrow> ('a \<times> 'a) list" where
  "index_pairs [] = []"
| "index_pairs (x # xs) = map (Pair x) xs @ index_pairs xs"

text \<open>\<open>tuple(sorted([protein1, protein2]))\<close>.\<close>

definition pair_key :: "'p::linorder \<Rightarrow> 'p \<Rightarrow> 'p \<times> 'p" where
  "pair_key protein1 protein2 =
     (if protein2 < protein1 then (protein2, protein1) else (protein1, protein2))"

text \<open>
  The two updates of \<open>protein_pairs[pair_key]\<close>, a \<open>defaultdict\<close> whose default is an
  empty set of shared domains and a count of 0.
\<close>

definition record_pair ::
  "'d \<Rightarrow> 'k \<Rightarrow> ('k, 'd pyset \<times> int) dict \<Rightarrow> ('k, 'd pyset \<times> int) dict" where
  "record_pair domain key protein_pairs =
     AList.update key
       (case (case map_of protein_pairs key of None \<Rightarrow> ([], 0) | Some v \<Rightarrow> v) of
          (shared, n) \<Rightarrow> (set_add domain shared, n + 1))
       protein_pairs"

definition bucket_pairs ::
  "'d \<times> ('p::linorder) list \<Rightarrow> ('p \<times> 'p, 'd pyset \<times> int) dict \<Rightarrow>
   ('p \<times> 'p, 'd pyset \<times> int) dict" where
  "bucket_pairs bucket protein_pairs =
     (case bucket of (domain, protein_list) \<Rightarrow>
        if length protein_list < 2 then protein_pairs
        else fold (\<lambda>(protein1, protein2). record_pair domain (pair_key protein1 protein2))
               (index_pairs protein_list) protein_pairs)"

definition collect_pairs ::
  "('d, ('p::linorder) list) dict \<Rightarrow> ('p \<times> 'p, 'd pyset \<times> int) dict" where
  "collect_pairs domain_index = fold bucket_pairs domain_index []"

definition make_edge :: "'p \<Rightarrow> 'p \<Rightarrow> rat \<Rightarrow> 'd list \<Rightarrow> ('p, 'd) similarity_edge" where
  "make_edge p1 p2 jaccard shared =
     \<lparr>source_protein_id = p1, target_protein_id = p2, weight = jaccard,
      jaccard_similarity = jaccard, shared_domains = shared,
      shared_domain_count = int (length shared)\<rparr>"

text \<open>The loop over \<open>protein_pairs.items()\<close> that appends to \<open>edges\<close>.\<close>

fun edges_loop ::
  "('p, 'd pyset) dict \<Rightarrow> rat \<Rightarrow> ('p \<times> 'p, 'd pyset \<times> int) dict \<Rightarrow>
   ('p, 'd) similarity_edge list \<Rightarrow> error + ('p, 'd) similarity_edge list" where
  "edges_loop protein_domains min_sim [] edges = Inr edges"
| "edges_loop protein_domains min_sim (((protein1, protein2), (shared, n)) # rest) edges =
     (case getitem protein_domains protein1 of
        Inl e \<Rightarrow> Inl e
      | Inr domains1 \<Rightarrow>
          (case getitem protein_domains protein2 of
             Inl e \<Rightarrow> Inl e
           | Inr domains2 \<Rightarrow>
               (let union_domains = set_union domains1 domains2
                in if union_domains = [] then edges_loop protein_domains min_sim rest edges
                   else
                     (case py_div (int (length shared)) (int (length union_domains)) of
                        Inl e \<Rightarrow> Inl e
                      | Inr jaccard \<Rightarrow>
                          if jaccard \<ge> min_sim
                          then edges_loop protein_domains min_sim rest
                                 (edges @ [make_edge protein1 protein2 jaccard shared])
                          else edges_loop protein_domains min_sim rest edges))))"

text \<open>
  \<open>_compute_similarities\<close>; the threshold it reads from \<open>self.min_similarity\<close> is the
  last argument.
\<close>

definition compute_similarities ::
  "('p::linorder, 'd) graph_protein list \<Rightarrow> ('d, 'p list) dict \<Rightarrow> rat \<Rightarrow>
   error + ('p, 'd) similarity_edge list" where
  "compute_similarities proteins_data domain_index min_sim =
     edges_loop (protein_domains_of proteins_data) min_sim (collect_pairs domain_index) []"

subsection \<open>The all-pairs loop of \<open>neo4j_service.build_protein_graph\<close>\<close>

text \<open>
  The edges handed to \<open>create_similarity_edge\<close>, in the order of the calls: the body of
  the inner loop for one pair, the inner loop over \<open>proteins_data[i + 1:]\<close>, and the
  outer loop.
\<close>

definition pair_edge ::
  "('p, 'd) graph_protein \<Rightarrow> ('p, 'd) graph_protein \<Rightarrow> rat \<Rightarrow>
   error + ('p, 'd) similarity_edge list" where
  "pair_edge protein1 protein2 min_sim =
     (let domains1 = py_set (domains protein1); domains2 = py_set (domains protein2)
      in if domains1 = [] \<or> domains2 = [] then Inr []
         else
           (let intersection = set_intersection domains1 domains2;
                union_domains = set_union domains1 domains2
            in if intersection = [] then Inr []
               else
                 (case py_div (int (length intersection)) (int (length union_domains)) of
                    Inl e \<Rightarrow> Inl e
                  | Inr jaccard \<Rightarrow>
                      if jaccard \<ge> min_sim
                      then Inr [make_edge (protein_id protein1) (protein_id protein2)
                                  jaccard intersection]
                      else Inr [])))"

fun inner_pairs ::
  "('p, 'd) graph_protein \<Rightarrow> ('p, 'd) graph_protein list \<Rightarrow> rat \<Rightarrow>
   ('p, 'd) similarity_edge list \<Rightarrow> error + ('p, 'd) similarity_edge list" where
  "inner_pairs protein1 [] min_sim edges = Inr edges"
| "inner_pairs protein1 (protein2 # rest) min_sim edges =
     (case pair_edge protein1 protein2 min_sim of
        Inl e \<Rightarrow> Inl e
      | Inr new_edges \<Rightarrow> inner_pairs protein1 rest min_sim (edges @ new_edges))"

fun all_pairs_edges ::
  "('p, 'd) graph_protein list \<Rightarrow> rat \<Rightarrow> ('p, 'd) similarity_edge list \<Rightarrow>
   error + ('p, 'd) similarity_edge list" where
  "all_pairs_edges [] min_sim edges = Inr edges"
| "all_pairs_edges (protein1 # rest) min_sim edges =
     (case inner_pairs protein1 rest min_sim edges of
        Inl e \<Rightarrow> Inl e
      | Inr edges' \<Rightarrow> all_pairs_edges rest min_sim edges')"

text \<open>
  What the comparison of the two computations looks at: the unordered pair of
  endpoints, the similarity and the set of shared domains.
\<close>

definition edge_view :: "('p, 'd) similarity_edge \<Rightarrow> 'p set \<times> rat \<times> 'd set" where
  "edge_view e =
     ({source_protein_id e, target_protein_id e}, jaccard_similarity e, set (shared_domains e))"

subsection \<open>Notions for the statements about the edges\<close>

text \<open>
  The bucket a domain should get, the list of (pair key, domain) updates the buckets
  cause, the shared domains recorded for a key, and the Jaccard similarity of two
  proteins' domain sets.
\<close>

definition domain_bucket :: "('p, 'd) graph_protein list \<Rightarrow> 'd \<Rightarrow> 'p list" where
  "domain_bucket proteins_data d =
     map protein_id (filter (\<lambda>p. d \<in> set (domains p)) proteins_data)"

definition pair_events :: "('d, ('p::linorder) list) dict \<Rightarrow> (('p \<times> 'p) \<times> 'd) list" where
  "pair_events domain_index =
     concat (map (\<lambda>(d, protein_list).
                    map (\<lambda>(p1, p2). (pair_key p1 p2, d)) (index_pairs protein_list))
               domain_index)"

definition shared_of :: "('k, 'd pyset \<times> int) dict \<Rightarrow> 'k \<Rightarrow> 'd pyset" where
  "shared_of protein_pairs key =
     (case map_of protein_pairs key of None \<Rightarrow> [] | Some (shared, n) \<Rightarrow> shared)"

definition jaccard_of :: "('p, 'd) graph_protein \<Rightarrow> ('p, 'd) graph_protein \<Rightarrow> rat" where
  "jaccard_of p q =
     of_int (int (card (set (domains p) \<inter> set (domains q)))) /
     of_int (int (card (set (domains p) \<union> set (domains q))))"

text \<open>
  The edges the loop over \<open>protein_pairs.items()\<close> appends for one entry when both
  lookups in \<open>protein_domains\<close> succeed, and the edges the all-pairs loop creates
  for one pair.
\<close>

definition entry_edges ::
  "('p, 'd pyset) dict \<Rightarrow> rat \<Rightarrow> ('p \<times> 'p) \<times> ('d pyset \<times> int) \<Rightarrow>
   ('p, 'd) similarity_edge list" where
  "entry_edges protein_domains min_sim entry =
     (case entry of ((p1, p2), (shared, n)) \<Rightarrow>
        (let union_domains =
               set_union (the (map_of protein_domains p1)) (the (map_of protein_domains p2));
             jaccard = of_int (int (length shared)) / of_int (int (length union_domains))
         in if union_domains \<noteq> [] \<and> jaccard \<ge> min_sim
            then [make_edge p1 p2 jaccard shared] else []))"

definition pair_edge_list ::
  "('p, 'd) graph_protein \<Rightarrow> ('p, 'd) graph_protein \<Rightarrow> rat \<Rightarrow> ('p, 'd) similarity_edge list" where
  "pair_edge_list p q min_sim = (case pair_edge p q min_sim of Inl e \<Rightarrow> [] | Inr es \<Rightarrow> es)"

text \<open>The three proteins of the specification's similarity scenario.\<close>

definition abc_proteins :: "(string, string) graph_protein list" where
  "abc_proteins =
     [\<lparr>protein_id = ''A'', domains = [''d1'', ''d2'']\<rparr>,
      \<lparr>protein_id = ''B'', domains = [''d2'', ''d3'']\<rparr>,
      \<lparr>protein_id = ''C'', domains = [''d3'', ''d4'']\<rparr>]"

section \<open>Properties of label propagation\<close>

subsection \<open>The tally and the update of one protein\<close>

lemma keys_tally_label: "fst ` set (tally_label l nl) = insert l (fst ` set nl)"
  by (simp add: tally_label_def dom_update)

lemma keys_fold_tally_label: "fst ` set (fold tally_label ls nl) = set ls \<union> fst ` set nl"
  by (induction ls arbitrary: nl) (auto simp: keys_tally_label)

lemma keys_tally_neighbor:
  "fst ` set (tally_neighbor cur n nl) =
     (case map_of cur n of None \<Rightarrow> {} | Some ls \<Rightarrow> set ls) \<union> fst ` set nl"
  by (auto simp: tally_neighbor_def keys_fold_tally_label split: option.splits)

lemma keys_fold_tally_neighbor:
  "fst ` set (fold (tally_neighbor cur) ns nl) = neighbor_union cur ns \<union> fst ` set nl"
  by (induction ns arbitrary: nl) (auto simp: keys_tally_neighbor neighbor_union_def)

lemma keys_collect_neighbor_labels:
  "fst ` set (collect_neighbor_labels cur ns) = neighbor_union cur ns"
  by (simp add: collect_neighbor_labels_def keys_fold_tally_neighbor)

lemma set_most_common_labels: "set (most_common_labels nl) = fst ` set nl"
  by (simp add: most_common_labels_def)

lemma collect_empty_iff:
  "collect_neighbor_labels cur ns = [] \<longleftrightarrow> neighbor_union cur ns = {}"
  using keys_collect_neighbor_labels [of cur ns] by auto

lemma set_new_label_set_of:
  "set (new_label_set_of cur ns own) =
     (if ns = [] \<or> neighbor_union cur ns = {} then set own else neighbor_union cur ns)"
  by (simp add: new_label_set_of_def collect_empty_iff set_most_common_labels
      keys_collect_neighbor_labels)

lemma lp_protein_ok:
  assumes "map_of graph p = Some ns" and "map_of cur p = Some own"
  shows "lp_protein graph cur p (new, ch) =
           Inr (AList.update p (new_label_set_of cur ns own) new, ch + changed_of cur ns own)"
  using assms by (simp add: lp_protein_def getitem_def new_label_set_of_def changed_of_def Let_def)

subsection \<open>One pass and the loop\<close>

lemma lp_sweep_ok:
  assumes "\<forall>p \<in> set ps. p \<in> fst ` set graph \<and> p \<in> fst ` set cur"
  shows "\<exists>new' ch'. lp_sweep graph cur ps (new, ch) = Inr (new', ch') \<and>
           map_of new' = (\<lambda>p. if p \<in> set ps then Some (lp_new graph cur p) else map_of new p) \<and>
           ch' = ch + sum_list (map (lp_changed graph cur) ps)"
  using assms
proof (induction ps arbitrary: new ch)
  case Nil
  then show ?case by simp
next
  case (Cons p ps)
  from Cons.prems obtain ns own where g: "map_of graph p = Some ns" and c: "map_of cur p = Some own"
    by (auto simp: dom_map_of_conv_image_fst [symmetric])
  have step: "lp_protein graph cur p (new, ch) =
      Inr (AList.update p (lp_new graph cur p) new, ch + lp_changed graph cur p)"
    using lp_protein_ok [OF g c] g c by (simp add: lp_new_def lp_changed_def)
  from Cons.prems have "\<forall>q \<in> set ps. q \<in> fst ` set graph \<and> q \<in> fst ` set cur" by simp
  from Cons.IH [OF this, of "AList.update p (lp_new graph cur p) new" "ch + lp_changed graph cur p"]
  obtain new' ch' where
    r: "lp_sweep graph cur ps (AList.update p (lp_new graph cur p) new, ch + lp_changed graph cur p)
          = Inr (new', ch')"
    and m: "map_of new' = (\<lambda>q. if q \<in> set ps then Some (lp_new graph cur q)
              else map_of (AList.update p (lp_new graph cur p) new) q)"
    and k: "ch' = ch + lp_changed graph cur p + sum_list (map (lp_changed graph cur) ps)"
    by blast
  have "lp_sweep graph cur (p # ps) (new, ch) = Inr (new', ch')"
    using step r by simp
  moreover have "map_of new' = (\<lambda>q. if q \<in> set (p # ps) then Some (lp_new graph cur q) else map_of new q)"
    unfolding m by (auto simp: update_conv' fun_eq_iff)
  moreover have "ch' = ch + sum_list (map (lp_changed graph cur) (p # ps))"
    using k by simp
  ultimately show ?case by blast
qed

lemma lp_iteration_ok:
  assumes "fst ` set graph \<subseteq> fst ` set cur"
  shows "\<exists>new ch. lp_iteration graph cur = Inr (new, ch) \<and>
           map_of new = (\<lambda>p. if p \<in> fst ` set graph then Some (lp_new graph cur p) else None) \<and>
           ch = sum_list (map (lp_changed graph cur) (map fst graph))"
proof -
  have "\<forall>p \<in> set (map fst graph). p \<in> fst ` set graph \<and> p \<in> fst ` set cur"
    using assms by auto
  from lp_sweep_ok [OF this, of "[]" 0] obtain new' ch' where
    "lp_sweep graph cur (map fst graph) ([], 0) = Inr (new', ch')"
    "map_of new' = (\<lambda>p. if p \<in> set (map fst graph) then Some (lp_new graph cur p) else map_of [] p)"
    "ch' = 0 + sum_list (map (lp_changed graph cur) (map fst graph))"
    by blast
  then show ?thesis
    by (simp add: lp_iteration_def cong: if_cong)
qed

lemma lp_iteration_cover:
  assumes "fst ` set graph \<subseteq> fst ` set cur" and "lp_iteration graph cur = Inr (new, ch)"
  shows "fst ` set new = fst ` set graph"
proof -
  from lp_iteration_ok [OF assms(1)] assms(2)
  have "map_of new = (\<lambda>p. if p \<in> fst ` set graph then Some (lp_new graph cur p) else None)"
    by auto
  then have "dom (map_of new) = fst ` set graph"
    by (auto simp: dom_def)
  then show ?thesis by (simp add: dom_map_of_conv_image_fst)
qed

lemma lp_changed_range: "0 \<le> lp_changed graph cur p \<and> lp_changed graph cur p \<le> 1"
  by (simp add: lp_changed_def changed_of_def)

lemma lp_loop_ok:
  assumes "graph \<noteq> []" and "fst ` set graph \<subseteq> fst ` set cur" and "i < m"
  shows "\<exists>final k conv changes.
           lp_loop graph cur m thr i = Inr (final, k, conv) \<and> i < k \<and> k \<le> m \<and>
           lp_run graph cur (nat (k - 1 - i)) = Inr (final, changes) \<and>
           (conv \<longrightarrow> convergence_rate graph changes < thr) \<and>
           (\<not> conv \<longrightarrow> k = m \<and> \<not> convergence_rate graph changes < thr) \<and>
           (\<forall>j < nat (k - 1 - i). \<exists>ls c. lp_run graph cur j = Inr (ls, c) \<and>
               \<not> convergence_rate graph c < thr)"
  using assms
proof (induction graph cur m thr i rule: lp_loop.induct)
  case (1 graph cur m thr i)
  from lp_iteration_ok [OF "1.prems"(2)] obtain new ch where
    it: "lp_iteration graph cur = Inr (new, ch)" by blast
  have cov: "fst ` set new \<subseteq> fst ` set graph \<and> fst ` set graph \<subseteq> fst ` set new"
    using lp_iteration_cover [OF "1.prems"(2) it] by simp
  have dv: "py_div ch (int (length (map fst graph))) = Inr (convergence_rate graph ch)"
    using "1.prems"(1) by (simp add: py_div_def convergence_rate_def)
  show ?case
  proof (cases "convergence_rate graph ch < thr")
    case True
    have "lp_loop graph cur m thr i = Inr (new, i + 1, True)"
      using "1.prems"(3) it dv True by (subst lp_loop.simps) simp
    moreover have "lp_run graph cur (nat (i + 1 - 1 - i)) = Inr (new, ch)"
      using it by simp
    ultimately show ?thesis using True "1.prems"(3) by force
  next
    case False
    have unf: "lp_loop graph cur m thr i = lp_loop graph new m thr (i + 1)"
      using "1.prems"(3) it dv False by (subst lp_loop.simps) simp
    show ?thesis
    proof (cases "i + 1 < m")
      case True
      have "\<exists>final k conv changes.
           lp_loop graph new m thr (i + 1) = Inr (final, k, conv) \<and> i + 1 < k \<and> k \<le> m \<and>
           lp_run graph new (nat (k - 1 - (i + 1))) = Inr (final, changes) \<and>
           (conv \<longrightarrow> convergence_rate graph changes < thr) \<and>
           (\<not> conv \<longrightarrow> k = m \<and> \<not> convergence_rate graph changes < thr) \<and>
           (\<forall>j < nat (k - 1 - (i + 1)). \<exists>ls c. lp_run graph new j = Inr (ls, c) \<and>
               \<not> convergence_rate graph c < thr)"
        using "1.IH" [OF "1.prems"(3) it refl dv False "1.prems"(1) _ True] cov
        by blast
      then obtain final k conv changes where
        r: "lp_loop graph new m thr (i + 1) = Inr (final, k, conv)" and b: "i + 1 < k" "k \<le> m"
        and run: "lp_run graph new (nat (k - 1 - (i + 1))) = Inr (final, changes)"
        and c1: "conv \<longrightarrow> convergence_rate graph changes < thr"
        and c2: "\<not> conv \<longrightarrow> k = m \<and> \<not> convergence_rate graph changes < thr"
        and c3: "\<forall>j < nat (k - 1 - (i + 1)). \<exists>ls c. lp_run graph new j = Inr (ls, c) \<and>
               \<not> convergence_rate graph c < thr"
        by blast
      have suc: "nat (k - 1 - i) = Suc (nat (k - 1 - (i + 1)))"
        using b by simp
      have run': "lp_run graph cur (nat (k - 1 - i)) = Inr (final, changes)"
        unfolding suc using it run by simp
      have c3': "\<forall>j < nat (k - 1 - i). \<exists>ls c. lp_run graph cur j = Inr (ls, c) \<and>
               \<not> convergence_rate graph c < thr"
      proof (intro allI impI)
        fix j assume j: "j < nat (k - 1 - i)"
        show "\<exists>ls c. lp_run graph cur j = Inr (ls, c) \<and> \<not> convergence_rate graph c < thr"
        proof (cases j)
          case 0
          then show ?thesis using it False by simp
        next
          case (Suc j')
          with j suc have "j' < nat (k - 1 - (i + 1))" by simp
          with c3 show ?thesis using Suc it by simp
        qed
      qed
      show ?thesis
        unfolding unf using r b run' c1 c2 c3' by force
    next
      case F2: False
      with "1.prems"(3) have eq: "i + 1 = m" by simp
      have "lp_loop graph new m thr (i + 1) = Inr (new, m, False)"
        using eq by (subst lp_loop.simps) simp
      moreover have "lp_run graph cur (nat (m - 1 - i)) = Inr (new, ch)"
        using it eq by simp
      ultimately show ?thesis
        unfolding unf using False eq "1.prems"(3) by force
    qed
  qed
qed



lemma lp_iteration_changes_zero:
  assumes "fst ` set graph \<subseteq> fst ` set cur"
    and "\<forall>p \<in> fst ` set graph. lp_changed graph cur p = 0"
  shows "\<exists>new. lp_iteration graph cur = Inr (new, 0)"
proof -
  from lp_iteration_ok [OF assms(1)] obtain new ch where
    it: "lp_iteration graph cur = Inr (new, ch)"
    and ch: "ch = sum_list (map (lp_changed graph cur) (map fst graph))" by blast
  have "(\<forall>x \<in> set xs. x = 0) \<Longrightarrow> sum_list xs = 0" for xs :: "int list"
    by (induction xs) auto
  moreover have "\<forall>x \<in> set (map (lp_changed graph cur) (map fst graph)). x = 0"
    using assms(2) by auto
  ultimately have "sum_list (map (lp_changed graph cur) (map fst graph)) = 0"
    by blast
  with it ch show ?thesis by simp
qed

subsection \<open>What the service passes to the loop\<close>

lemma keys_fold_update:
  "fst ` set (fold (\<lambda>x acc. AList.update (k x) (v x) acc) xs acc) = k ` set xs \<union> fst ` set acc"
  by (induction xs arbitrary: acc) (auto simp: dom_update)

lemma keys_build_graph: "fst ` set (build_graph ps) = protein_id ` set ps"
  by (simp add: build_graph_def keys_fold_update)

lemma keys_extract_initial_labels: "fst ` set (extract_initial_labels ps) = protein_id ` set ps"
  by (simp add: extract_initial_labels_def keys_fold_update)

lemma build_graph_nonempty: "ps \<noteq> [] \<Longrightarrow> build_graph ps \<noteq> []"
  using keys_build_graph [of ps] by (cases ps) auto

section \<open>Main results on label propagation\<close>

text \<open>
  C1. When every protein of the graph has an entry in the label state, one pass of
  the update returns a label state for exactly the proteins of the graph, and for
  each of them the new label set is the protein's own previous label set if it has no
  neighbours or no neighbour holds a label, and otherwise exactly the union of the
  neighbours' previous label sets. The right-hand sides read the previous state
  only, and the counts of the tally do not appear in them. The states of a run have
  that entry for every protein: the initial one by \<open>keys_extract_initial_labels\<close>,
  every later one by this statement.
\<close>

theorem lp_iteration_union:
  assumes "fst ` set graph \<subseteq> fst ` set current_labels"
  shows "\<exists>new_labels changes.
           lp_iteration graph current_labels = Inr (new_labels, changes) \<and>
           fst ` set new_labels = fst ` set graph \<and>
           (\<forall>protein neighbors own.
              map_of graph protein = Some neighbors \<and> map_of current_labels protein = Some own \<longrightarrow>
              (\<exists>new_label_set. map_of new_labels protein = Some new_label_set \<and>
                 (if neighbors = [] \<or> neighbor_union current_labels neighbors = {}
                  then new_label_set = own
                  else set new_label_set = neighbor_union current_labels neighbors)))"
proof -
  from lp_iteration_ok [OF assms] obtain new ch where
    it: "lp_iteration graph current_labels = Inr (new, ch)" and
    m: "map_of new = (\<lambda>p. if p \<in> fst ` set graph then Some (lp_new graph current_labels p) else None)"
    by blast
  have "\<exists>s. map_of new p = Some s \<and>
          (if ns = [] \<or> neighbor_union current_labels ns = {} then s = own
           else set s = neighbor_union current_labels ns)"
    if g: "map_of graph p = Some ns" and c: "map_of current_labels p = Some own" for p ns own
  proof -
    have "p \<in> fst ` set graph"
      using g by (metis domI dom_map_of_conv_image_fst)
    then have "map_of new p = Some (new_label_set_of current_labels ns own)"
      using m g c by (simp add: lp_new_def)
    moreover have "ns = [] \<or> neighbor_union current_labels ns = {} \<Longrightarrow>
        new_label_set_of current_labels ns own = own"
      by (auto simp: new_label_set_of_def collect_empty_iff)
    moreover have "\<not> (ns = [] \<or> neighbor_union current_labels ns = {}) \<Longrightarrow>
        set (new_label_set_of current_labels ns own) = neighbor_union current_labels ns"
      by (simp add: set_new_label_set_of)
    ultimately show ?thesis by auto
  qed
  with it lp_iteration_cover [OF assms it] show ?thesis by blast
qed




lemmas lp_eval = lp_iteration_def lp_protein_def getitem_def
  collect_neighbor_labels_def tally_neighbor_def tally_label_def most_common_labels_def py_div_def

lemma chain_cover: "fst ` set chain_graph \<subseteq> fst ` set chain_labels"
  by (simp add: chain_graph_def chain_labels_def)

lemma chain_first_pass: "lp_iteration chain_graph chain_labels = Inr (chain_first, 1)"
  by (simp add: chain_graph_def chain_labels_def chain_first_def lp_eval)

theorem lp_iteration_union_witness:
  "fst ` set chain_graph \<subseteq> fst ` set chain_labels \<and>
   lp_iteration chain_graph chain_labels = Inr (chain_first, 1) \<and>
   (\<exists>new_labels changes.
      lp_iteration chain_graph chain_labels = Inr (new_labels, changes) \<and>
      fst ` set new_labels = fst ` set chain_graph \<and>
      (\<forall>protein ns own.
         map_of chain_graph protein = Some ns \<and> map_of chain_labels protein = Some own \<longrightarrow>
         (\<exists>new_label_set. map_of new_labels protein = Some new_label_set \<and>
            (if ns = [] \<or> neighbor_union chain_labels ns = {}
             then new_label_set = own
             else set new_label_set = neighbor_union chain_labels ns))))"
  using lp_iteration_union [OF chain_cover] chain_cover chain_first_pass by blast

text \<open>
  C2, as stated, fails: the update replaces a label set by the union of the
  neighbours' sets, which need not contain the protein's own labels. On the graph
  A - B with A: {x, z} and B: {y} the two proteins swap their label sets in every pass:
  after the first pass B holds {x, z}, after the second B holds {y}.
\<close>

theorem label_set_growth_counterexample:
  "label_propagation [(''A'', [''B'']), (''B'', [''A''])]
       [(''A'', [''x'', ''z'']), (''B'', [''y''])] 1 (1 / 100)
     = Inr ([(''A'', [''y'']), (''B'', [''x'', ''z''])], 1, False) \<and>
   label_propagation [(''A'', [''B'']), (''B'', [''A''])]
       [(''A'', [''x'', ''z'']), (''B'', [''y''])] 2 (1 / 100)
     = Inr ([(''A'', [''x'', ''z'']), (''B'', [''y''])], 2, False) \<and>
   \<not> set [''x'', ''z''] \<subseteq> set [''y''] \<and>
   \<not> card (set [''x'', ''z'']) \<le> card (set [''y''])"
  by (simp add: label_propagation_def lp_eval)

text \<open>
  C2, amended. In one pass from a label state that has an entry for every protein of
  the graph: a protein without neighbours, or none of whose neighbours holds a label,
  keeps its label set; for any other protein the new label set contains the previous
  one exactly when the previous one is contained in the union of the neighbours'
  label sets (and then its size does not decrease); and a non-empty label set never
  becomes empty.
\<close>

theorem lp_iteration_growth:
  assumes "fst ` set graph \<subseteq> fst ` set cur"
    and "lp_iteration graph cur = Inr (new, ch)"
    and "map_of graph p = Some ns"
    and "map_of cur p = Some own"
  shows "\<exists>s. map_of new p = Some s \<and>
           (ns = [] \<or> neighbor_union cur ns = {} \<longrightarrow> s = own) \<and>
           (ns \<noteq> [] \<and> neighbor_union cur ns \<noteq> {} \<longrightarrow>
              (set own \<subseteq> set s \<longleftrightarrow> set own \<subseteq> neighbor_union cur ns)) \<and>
           (set own \<subseteq> set s \<longrightarrow> card (set own) \<le> card (set s)) \<and>
           (own \<noteq> [] \<longrightarrow> s \<noteq> [])"
proof -
  from lp_iteration_ok [OF assms(1)] assms(2)
  have m: "map_of new = (\<lambda>q. if q \<in> fst ` set graph then Some (lp_new graph cur q) else None)"
    by auto
  have "p \<in> fst ` set graph"
    using assms(3) by (metis domI dom_map_of_conv_image_fst)
  then have s: "map_of new p = Some (new_label_set_of cur ns own)"
    using m assms(3,4) by (simp add: lp_new_def)
  have a: "ns = [] \<or> neighbor_union cur ns = {} \<longrightarrow> new_label_set_of cur ns own = own"
    by (auto simp: new_label_set_of_def collect_empty_iff)
  have b: "ns \<noteq> [] \<and> neighbor_union cur ns \<noteq> {} \<longrightarrow>
             set (new_label_set_of cur ns own) = neighbor_union cur ns"
    by (simp add: set_new_label_set_of)
  have c: "set own \<subseteq> set (new_label_set_of cur ns own) \<longrightarrow>
             card (set own) \<le> card (set (new_label_set_of cur ns own))"
    by (simp add: card_mono)
  have d: "own \<noteq> [] \<longrightarrow> new_label_set_of cur ns own \<noteq> []"
    using a b by (cases "ns = [] \<or> neighbor_union cur ns = {}") auto
  from s a b c d show ?thesis by simp
qed

theorem lp_iteration_growth_witness:
  "fst ` set chain_graph \<subseteq> fst ` set chain_labels \<and>
   lp_iteration chain_graph chain_labels = Inr (chain_first, 1) \<and>
   map_of chain_graph ''B'' = Some [''A'', ''C''] \<and>
   map_of chain_labels ''B'' = Some [] \<and>
   (\<exists>s. map_of chain_first ''B'' = Some s \<and> set [] \<subseteq> set s \<and>
        card (set ([] :: string list)) \<le> card (set s))"
proof -
  have g: "map_of chain_graph ''B'' = Some [''A'', ''C'']" by (simp add: chain_graph_def)
  have c: "map_of chain_labels ''B'' = Some []" by (simp add: chain_labels_def)
  from lp_iteration_growth [OF chain_cover chain_first_pass g c] chain_cover chain_first_pass g c
  show ?thesis by auto
qed

text \<open>
  C3. For a non-empty graph, initial labels with an entry for every protein of the
  graph and \<open>max_iterations \<ge> 1\<close>, \<open>_label_propagation\<close> returns
  \<open>(final_labels, iterations_completed, converged)\<close> with
  \<open>1 \<le> iterations_completed \<le> max_iterations\<close>; \<open>final_labels\<close> is the label state of
  the pass numbered \<open>iterations_completed\<close>; if \<open>converged\<close>, the rate of that pass is
  below the threshold; if not, \<open>iterations_completed = max_iterations\<close> and the rate of
  that pass is not below the threshold; and in both cases no earlier pass had a rate
  below the threshold. Every graph and label map that the service builds from a
  non-empty snapshot is such an input.
\<close>

theorem label_propagation_terminates:
  "(graph \<noteq> [] \<and> fst ` set graph \<subseteq> fst ` set initial \<and> 1 \<le> m \<longrightarrow>
      (\<exists>final k conv changes.
         label_propagation graph initial m thr = Inr (final, k, conv) \<and>
         1 \<le> k \<and> k \<le> m \<and>
         lp_run graph (map (\<lambda>(p, ls). (p, remdups ls)) initial) (nat (k - 1))
           = Inr (final, changes) \<and>
         (conv \<longrightarrow> convergence_rate graph changes < thr) \<and>
         (\<not> conv \<longrightarrow> k = m \<and> \<not> convergence_rate graph changes < thr) \<and>
         (\<forall>j < nat (k - 1).
            \<exists>ls c. lp_run graph (map (\<lambda>(p, ls). (p, remdups ls)) initial) j = Inr (ls, c) \<and>
                   \<not> convergence_rate graph c < thr))) \<and>
   (ps \<noteq> [] \<longrightarrow>
      build_graph ps \<noteq> [] \<and>
      fst ` set (build_graph ps) \<subseteq> fst ` set (extract_initial_labels ps))"
proof (intro conjI impI)
  assume a: "graph \<noteq> [] \<and> fst ` set graph \<subseteq> fst ` set initial \<and> 1 \<le> m"
  have "fst ` set (map (\<lambda>(p, ls). (p, remdups ls)) initial) = fst ` set initial"
    by force
  with a have cov: "fst ` set graph \<subseteq> fst ` set (map (\<lambda>(p, ls). (p, remdups ls)) initial)"
    by simp
  from a have g: "graph \<noteq> []" and m: "0 < m" by simp_all
  from lp_loop_ok [OF g cov m, of thr]
  show "\<exists>final k conv changes.
         label_propagation graph initial m thr = Inr (final, k, conv) \<and>
         1 \<le> k \<and> k \<le> m \<and>
         lp_run graph (map (\<lambda>(p, ls). (p, remdups ls)) initial) (nat (k - 1))
           = Inr (final, changes) \<and>
         (conv \<longrightarrow> convergence_rate graph changes < thr) \<and>
         (\<not> conv \<longrightarrow> k = m \<and> \<not> convergence_rate graph changes < thr) \<and>
         (\<forall>j < nat (k - 1).
            \<exists>ls c. lp_run graph (map (\<lambda>(p, ls). (p, remdups ls)) initial) j = Inr (ls, c) \<and>
                   \<not> convergence_rate graph c < thr)"
    unfolding label_propagation_def by (auto 0 3)
next
  assume "ps \<noteq> []"
  then show "build_graph ps \<noteq> []" by (rule build_graph_nonempty)
next
  show "fst ` set (build_graph ps) \<subseteq> fst ` set (extract_initial_labels ps)"
    by (simp add: keys_build_graph keys_extract_initial_labels)
qed

lemma chain_run:
  "label_propagation chain_graph chain_labels 10 (1 / 100) = Inr (chain_final, 3, True)"
  by (simp add: label_propagation_def chain_graph_def chain_labels_def chain_final_def lp_eval)

lemma chain_snapshot:
  "map to_protein_data (chain_rows ''ec_numbers'') \<noteq> [] \<and>
   build_graph (map to_protein_data (chain_rows ''ec_numbers'')) = chain_graph \<and>
   extract_initial_labels (map to_protein_data (chain_rows ''ec_numbers'')) = chain_labels"
  by (simp add: chain_rows_def to_protein_data_def build_graph_def extract_initial_labels_def
      chain_graph_def chain_labels_def)

theorem label_propagation_terminates_witness:
  "chain_graph \<noteq> [] \<and>
   fst ` set chain_graph \<subseteq> fst ` set chain_labels \<and>
   (1::int) \<le> 10 \<and>
   label_propagation chain_graph chain_labels 10 (1 / 100) = Inr (chain_final, 3, True) \<and>
   (\<exists>changes.
      lp_run chain_graph (map (\<lambda>(p, ls). (p, remdups ls)) chain_labels) (nat (3 - 1)) =
        Inr (chain_final, changes) \<and>
      convergence_rate chain_graph changes < 1 / 100) \<and>
   map to_protein_data (chain_rows ''ec_numbers'') \<noteq> [] \<and>
   build_graph (map to_protein_data (chain_rows ''ec_numbers'')) = chain_graph \<and>
   fst ` set (build_graph (map to_protein_data (chain_rows ''ec_numbers'')))
     \<subseteq> fst ` set (extract_initial_labels (map to_protein_data (chain_rows ''ec_numbers'')))"
proof -
  let ?ps = "map to_protein_data (chain_rows ''ec_numbers'')"
  have n: "chain_graph \<noteq> []" by (simp add: chain_graph_def)
  have m: "(1::int) \<le> 10" by simp
  note t = label_propagation_terminates [of chain_graph chain_labels 10 "1 / 100" ?ps]
  from t n chain_cover m obtain final k conv changes where
    r: "label_propagation chain_graph chain_labels 10 (1 / 100) = Inr (final, k, conv)"
      "lp_run chain_graph (map (\<lambda>(p, ls). (p, remdups ls)) chain_labels) (nat (k - 1))
         = Inr (final, changes)"
      "conv \<longrightarrow> convergence_rate chain_graph changes < 1 / 100"
    by blast
  from r(1) chain_run have "final = chain_final" "k = 3" "conv" by simp_all
  with r have e: "\<exists>changes.
      lp_run chain_graph (map (\<lambda>(p, ls). (p, remdups ls)) chain_labels) (nat (3 - 1)) =
        Inr (chain_final, changes) \<and>
      convergence_rate chain_graph changes < 1 / 100"
    by blast
  from t chain_snapshot
  have c: "fst ` set (build_graph ?ps) \<subseteq> fst ` set (extract_initial_labels ?ps)"
    by blast
  from n chain_cover m chain_run e chain_snapshot c show ?thesis by blast
qed

text \<open>
  C6. If, in a label state with an entry for every protein of the graph, the label
  set of every protein of the graph equals the union of its neighbours' label sets,
  one more pass counts zero changes, leaves every label set as it is, and on a
  non-empty graph computes the convergence rate 0.
\<close>

theorem lp_iteration_fixed_point:
  assumes "fst ` set graph \<subseteq> fst ` set cur"
    and "\<forall>p ns own. map_of graph p = Some ns \<and> map_of cur p = Some own \<longrightarrow>
           set own = neighbor_union cur ns"
  shows "\<exists>new. lp_iteration graph cur = Inr (new, 0) \<and>
           (\<forall>p ns own. map_of graph p = Some ns \<and> map_of cur p = Some own \<longrightarrow>
              (\<exists>s. map_of new p = Some s \<and> set s = set own)) \<and>
           (graph \<noteq> [] \<longrightarrow> py_div 0 (int (length (map fst graph))) = Inr 0)"
proof -
  have same: "set (new_label_set_of cur ns own) = set own"
    if "map_of graph p = Some ns" "map_of cur p = Some own" for p ns own
    using assms(2) that by (auto simp: set_new_label_set_of)
  have zero: "\<forall>p \<in> fst ` set graph. lp_changed graph cur p = 0"
  proof
    fix p assume "p \<in> fst ` set graph"
    then obtain ns own where "map_of graph p = Some ns" "map_of cur p = Some own"
      using assms(1) by (metis domD dom_map_of_conv_image_fst subsetD)
    then show "lp_changed graph cur p = 0"
      using same by (simp add: lp_changed_def changed_of_def)
  qed
  from lp_iteration_changes_zero [OF assms(1) zero] obtain new where
    it: "lp_iteration graph cur = Inr (new, 0)" by blast
  from lp_iteration_ok [OF assms(1)] it
  have m: "map_of new = (\<lambda>q. if q \<in> fst ` set graph then Some (lp_new graph cur q) else None)"
    by auto
  have "\<exists>s. map_of new p = Some s \<and> set s = set own"
    if g: "map_of graph p = Some ns" and c: "map_of cur p = Some own" for p ns own
  proof -
    have "p \<in> fst ` set graph"
      using g by (metis domI dom_map_of_conv_image_fst)
    then have "map_of new p = Some (new_label_set_of cur ns own)"
      using m g c by (simp add: lp_new_def)
    with same [OF g c] show ?thesis by simp
  qed
  moreover have "graph \<noteq> [] \<longrightarrow> py_div 0 (int (length (map fst graph))) = Inr 0"
    by (simp add: py_div_def)
  ultimately show ?thesis using it by blast
qed

theorem lp_iteration_fixed_point_witness:
  "fst ` set [(''A'', [''B'']), (''B'', [''A''])]
     \<subseteq> fst ` set [(''A'', [''x'']), (''B'', [''x''])] \<and>
   set [''x''] = neighbor_union [(''A'', [''x'']), (''B'', [''x''])] [''B''] \<and>
   set [''x''] = neighbor_union [(''A'', [''x'']), (''B'', [''x''])] [''A''] \<and>
   lp_iteration [(''A'', [''B'']), (''B'', [''A''])] [(''A'', [''x'']), (''B'', [''x''])]
     = Inr ([(''A'', [''x'']), (''B'', [''x''])], 0) \<and>
   (\<exists>new. lp_iteration [(''A'', [''B'']), (''B'', [''A''])] [(''A'', [''x'']), (''B'', [''x''])]
            = Inr (new, 0)) \<and>
   py_div 0 (int (length (map fst [(''A'', [''B'']), (''B'', [''A''])]))) = Inr 0"
proof -
  let ?g = "[(''A'', [''B'']), (''B'', [''A''])]"
  let ?l = "[(''A'', [''x'']), (''B'', [''x''])]"
  have h: "fst ` set ?g \<subseteq> fst ` set ?l" by simp
  have a: "set [''x''] = neighbor_union ?l [''B'']" "set [''x''] = neighbor_union ?l [''A'']"
    by (simp_all add: neighbor_union_def)
  have f: "\<forall>p ns own. map_of ?g p = Some ns \<and> map_of ?l p = Some own \<longrightarrow>
             set own = neighbor_union ?l ns"
    by (auto simp: neighbor_union_def split: if_splits)
  have e: "lp_iteration ?g ?l = Inr (?l, 0)"
    by (simp add: lp_eval)
  from lp_iteration_fixed_point [OF h f] h a e show ?thesis
    by auto
qed

section \<open>Confidence scores\<close>

lemma map_of_fold_update:
  assumes "distinct (map fst xs)"
  shows "map_of (fold (\<lambda>(k, v) acc. AList.update k (f k v) acc) xs acc) p =
           (case map_of xs p of None \<Rightarrow> map_of acc p | Some v \<Rightarrow> Some (f p v))"
  using assms
proof (induction xs arbitrary: acc)
  case Nil
  then show ?case by simp
next
  case (Cons x xs)
  obtain k v where x: "x = (k, v)" by (cases x)
  from Cons.prems x have d: "distinct (map fst xs)" and nk: "k \<notin> fst ` set xs" by auto
  from nk have none: "map_of xs k = None"
    by (simp add: map_of_eq_None_iff)
  show ?case
    using Cons.IH [OF d, of "AList.update k (f k v) acc"] none
    by (auto simp: x update_conv' split: option.splits)
qed

lemma values_update: "snd ` set (AList.update k v al) \<subseteq> insert v (snd ` set al)"
  by (induction al) auto

lemma values_fold_update:
  "snd ` set (fold (\<lambda>(k, v) acc. AList.update k (f k v) acc) xs acc)
     \<subseteq> snd ` set acc \<union> (\<lambda>(k, v). f k v) ` set xs"
proof (induction xs arbitrary: acc)
  case Nil
  then show ?case by simp
next
  case (Cons x xs)
  obtain k v where x: "x = (k, v)" by (cases x)
  have "snd ` set (fold (\<lambda>(k, v) acc. AList.update k (f k v) acc) xs (AList.update k (f k v) acc))
          \<subseteq> snd ` set (AList.update k (f k v) acc) \<union> (\<lambda>(k, v). f k v) ` set xs"
    by (rule Cons.IH)
  also have "\<dots> \<subseteq> insert (f k v) (snd ` set acc) \<union> (\<lambda>(k, v). f k v) ` set xs"
    using values_update [of k "f k v" acc] by blast
  finally show ?case by (auto simp: x)
qed

lemma confidence_of_range: "confidence_of initial p ls \<in> {0, 1 / 2, 1}"
  by (simp add: confidence_of_def)

text \<open>
  C8. For a final label assignment (a dict, so with pairwise distinct keys) and any
  seed assignment, the confidence stored for a protein of the final assignment is 0
  if its final label list is empty, else 1 if the seed assignment has a non-empty
  entry for it, else 1/2; proteins outside the final assignment get no score; and
  every score is one of 0, 1/2, 1.
\<close>

theorem confidence_scores_exact:
  assumes "distinct (map fst final)"
  shows "map_of (calculate_confidence_scores final initial) p =
           (case map_of final p of
              None \<Rightarrow> None
            | Some ls \<Rightarrow>
                Some (if ls = [] then 0
                      else if \<exists>seed. map_of initial p = Some seed \<and> seed \<noteq> [] then 1
                      else 1 / 2)) \<and>
         snd ` set (calculate_confidence_scores final initial) \<subseteq> {0, 1 / 2, 1}"
proof -
  have "map_of (calculate_confidence_scores final initial) p =
          (case map_of final p of None \<Rightarrow> None | Some ls \<Rightarrow> Some (confidence_of initial p ls))"
    unfolding calculate_confidence_scores_def
    using map_of_fold_update [OF assms, of "confidence_of initial" "[]" p]
    by (simp split: option.splits)
  moreover have "confidence_of initial p ls =
      (if ls = [] then 0
       else if \<exists>seed. map_of initial p = Some seed \<and> seed \<noteq> [] then 1 else 1 / 2)" for ls
    by (auto simp: confidence_of_def split: option.splits)
  moreover have "snd ` set (calculate_confidence_scores final initial) \<subseteq> {0, 1 / 2, 1}"
  proof
    fix c assume "c \<in> snd ` set (calculate_confidence_scores final initial)"
    with values_fold_update [of "confidence_of initial" final "[]"]
    have "c \<in> (\<lambda>(k, v). confidence_of initial k v) ` set final"
      unfolding calculate_confidence_scores_def by auto
    then obtain k v where "c = confidence_of initial k v" by auto
    then show "c \<in> {0, 1 / 2, 1}" using confidence_of_range [of initial k v] by simp
  qed
  ultimately show ?thesis by (simp split: option.splits)
qed

theorem confidence_scores_exact_witness:
  "distinct (map fst [(''A'', [''1.1.1.1'', ''2.2.2.2'']), (''B'', [''1.1.1.1'', ''2.2.2.2'']),
                      (''D'', [])]) \<and>
   calculate_confidence_scores
       [(''A'', [''1.1.1.1'', ''2.2.2.2'']), (''B'', [''1.1.1.1'', ''2.2.2.2'']), (''D'', [])]
       [(''A'', [''1.1.1.1'']), (''B'', []), (''D'', [])]
     = [(''A'', 1), (''B'', 1 / 2), (''D'', 0)] \<and>
   map_of (calculate_confidence_scores
       [(''A'', [''1.1.1.1'', ''2.2.2.2'']), (''B'', [''1.1.1.1'', ''2.2.2.2'']), (''D'', [])]
       [(''A'', [''1.1.1.1'']), (''B'', []), (''D'', [])]) ''B'' = Some (1 / 2)"
proof -
  let ?f = "[(''A'', [''1.1.1.1'', ''2.2.2.2'']), (''B'', [''1.1.1.1'', ''2.2.2.2'']), (''D'', [])]"
  let ?i = "[(''A'', [''1.1.1.1'']), (''B'', []), (''D'', [])]"
  have d: "distinct (map fst ?f)" by simp
  have e: "calculate_confidence_scores ?f ?i = [(''A'', 1), (''B'', 1 / 2), (''D'', 0)]"
    by (simp add: calculate_confidence_scores_def confidence_of_def)
  from confidence_scores_exact [OF d, of ?i "''B''"] d e show ?thesis by simp
qed

section \<open>Errors of the propagation service\<close>

lemma lp_protein_error: "lp_protein graph cur p acc = Inl e \<Longrightarrow> e = KeyError"
  by (auto simp: lp_protein_def getitem_def Let_def split: prod.splits option.splits if_splits sum.splits)

lemma lp_sweep_error: "lp_sweep graph cur ps acc = Inl e \<Longrightarrow> e = KeyError"
  by (induction ps arbitrary: acc) (auto split: sum.splits dest: lp_protein_error)

lemma lp_iteration_error: "lp_iteration graph cur = Inl e \<Longrightarrow> e = KeyError"
  unfolding lp_iteration_def by (rule lp_sweep_error)

lemma lp_loop_error:
  "lp_loop graph cur m thr i = Inl e \<Longrightarrow> e = KeyError \<or> (e = ZeroDivisionError \<and> graph = [])"
proof (induction graph cur m thr i rule: lp_loop.induct)
  case (1 graph cur m thr i)
  show ?case
  proof (cases "i < m")
    case False
    with "1.prems" show ?thesis by (subst (asm) lp_loop.simps) simp
  next
    case True
    show ?thesis
    proof (cases "lp_iteration graph cur")
      case (Inl e')
      with "1.prems" True have "e = e'" by (subst (asm) lp_loop.simps) simp
      with Inl show ?thesis using lp_iteration_error by blast
    next
      case (Inr r)
      obtain new ch where r: "r = (new, ch)" by (cases r)
      show ?thesis
      proof (cases "py_div ch (int (length (map fst graph)))")
        case (Inl e')
        with "1.prems" True Inr r have "e = e'" by (subst (asm) lp_loop.simps) simp
        with Inl show ?thesis by (auto simp: py_div_def split: if_splits)
      next
        case rate: (Inr cr)
        show ?thesis
        proof (cases "cr < thr")
          case c: True
          with "1.prems" True Inr r rate show ?thesis by (subst (asm) lp_loop.simps) simp
        next
          case c: False
          with "1.prems" True Inr r rate
          have "lp_loop graph new m thr (i + 1) = Inl e" by (subst (asm) lp_loop.simps) simp
          with "1.IH" [OF True _ refl rate c] Inr r show ?thesis by simp
        qed
      qed
    qed
  qed
qed

lemma label_propagation_error:
  "label_propagation graph initial m thr = Inl e \<Longrightarrow>
     e = KeyError \<or> (e = ZeroDivisionError \<and> graph = [])"
  unfolding label_propagation_def by (rule lp_loop_error)

lemma update_protein_labels_error:
  "fst (update_protein_labels st final attr) \<noteq> Inl ZeroDivisionError"
proof (induction final arbitrary: st)
  case Nil
  then show ?case by simp
next
  case (Cons x final)
  obtain pid ls where x: "x = (pid, ls)" by (cases x)
  show ?case
    using Cons.IH
    by (auto simp: x neo4j_update_protein_labels_def get_protein_by_id_def
        update_protein_annotations_def driver_not_initialized_def attribute_error_def
        mongo_not_connected_def split: prod.splits sum.splits if_splits)
qed

lemma propagate_labels_no_zero_division:
  "fst (propagate_labels st req) \<noteq> Inl ZeroDivisionError"
proof (cases "get_proteins_for_label_propagation st (attribute req)")
  case (Pair r st1)
  show ?thesis
  proof (cases r)
    case (Inl e)
    with Pair have "e = driver_not_initialized \<or> e = attribute_error"
      by (auto simp: get_proteins_for_label_propagation_def run_label_query_def split: if_splits)
    with Pair Inl show ?thesis
      by (auto simp: propagate_labels_def driver_not_initialized_def attribute_error_def)
  next
    case (Inr ps)
    show ?thesis
    proof (cases "ps = []")
      case True
      with Pair Inr show ?thesis by (simp add: propagate_labels_def no_proteins_error_def)
    next
      case False
      then have g: "build_graph ps \<noteq> []" by (rule build_graph_nonempty)
      show ?thesis
      proof (cases "label_propagation (build_graph ps) (extract_initial_labels ps)
                      (max_iterations req) (threshold req)")
        case e: (Inl e)
        from label_propagation_error [OF e] g have "e = KeyError" by simp
        with Pair Inr False e show ?thesis by (simp add: propagate_labels_def)
      next
        case ok: (Inr res)
        obtain final k conv where res: "res = (final, k, conv)" by (cases res)
        show ?thesis
          using Pair Inr False ok res update_protein_labels_error [of st1 final "attribute req"]
          by (auto simp: propagate_labels_def split: prod.splits sum.splits)
      qed
    qed
  qed
qed

text \<open>
  C9. \<open>propagate_labels\<close> raises, and returns no result, when the attribute is neither
  "ec" nor "go": the stores are left as they were, so no query has been issued, and
  with an initialised driver the error is the \<open>ValueError\<close> naming the two attributes.
  It also raises, with the \<open>ValueError\<close> "No proteins found for label propagation",
  when the label query yields no record; the only statement issued is that query.
\<close>

theorem propagate_labels_rejects:
  "(attribute req \<noteq> ''ec'' \<and> attribute req \<noteq> ''go'' \<longrightarrow>
      (\<exists>e. propagate_labels st req = (Inl e, st) \<and> (driver st \<longrightarrow> e = attribute_error))) \<and>
   (driver st \<and> attribute req = ''ec'' \<and> label_rows st ''ec_numbers'' = [] \<longrightarrow>
      propagate_labels st req =
        (Inl no_proteins_error, st\<lparr>calls := calls st @ [LabelQuery ''ec_numbers'']\<rparr>)) \<and>
   (driver st \<and> attribute req = ''go'' \<and> label_rows st ''go_terms'' = [] \<longrightarrow>
      propagate_labels st req =
        (Inl no_proteins_error, st\<lparr>calls := calls st @ [LabelQuery ''go_terms'']\<rparr>))"
  by (simp add: propagate_labels_def get_proteins_for_label_propagation_def run_label_query_def)

theorem propagate_labels_rejects_witness:
  "attribute \<lparr>attribute = ''interpro'', max_iterations = 10, threshold = 1 / 100,
              min_similarity = 1 / 10\<rparr> \<noteq> ''ec'' \<and>
   attribute \<lparr>attribute = ''interpro'', max_iterations = 10, threshold = 1 / 100,
              min_similarity = 1 / 10\<rparr> \<noteq> ''go'' \<and>
   driver chain_stores \<and>
   propagate_labels chain_stores
       \<lparr>attribute = ''interpro'', max_iterations = 10, threshold = 1 / 100,
        min_similarity = 1 / 10\<rparr> = (Inl attribute_error, chain_stores) \<and>
   attribute \<lparr>attribute = ''go'', max_iterations = 10, threshold = 1 / 100,
              min_similarity = 1 / 10\<rparr> = ''go'' \<and>
   label_rows chain_stores ''go_terms'' = [] \<and>
   propagate_labels chain_stores
       \<lparr>attribute = ''go'', max_iterations = 10, threshold = 1 / 100,
        min_similarity = 1 / 10\<rparr> =
     (Inl no_proteins_error, chain_stores\<lparr>calls := calls chain_stores @ [LabelQuery ''go_terms'']\<rparr>)"
proof -
  let ?r1 = "\<lparr>attribute = ''interpro'', max_iterations = 10, threshold = 1 / 100,
              min_similarity = 1 / 10\<rparr>"
  let ?r2 = "\<lparr>attribute = ''go'', max_iterations = 10, threshold = 1 / 100,
              min_similarity = 1 / 10\<rparr>"
  have a: "attribute ?r1 \<noteq> ''ec'' \<and> attribute ?r1 \<noteq> ''go''" by simp
  have d: "driver chain_stores" by (simp add: chain_stores_def)
  have b: "driver chain_stores \<and> attribute ?r2 = ''go'' \<and> label_rows chain_stores ''go_terms'' = []"
    by (simp add: chain_stores_def chain_rows_def)
  from propagate_labels_rejects [of ?r1 chain_stores] a d
  have 1: "propagate_labels chain_stores ?r1 = (Inl attribute_error, chain_stores)"
    by auto
  from propagate_labels_rejects [of ?r2 chain_stores] b
  have 2: "propagate_labels chain_stores ?r2 =
     (Inl no_proteins_error, chain_stores\<lparr>calls := calls chain_stores @ [LabelQuery ''go_terms'']\<rparr>)"
    by blast
  from a d b 1 2 show ?thesis by simp
qed

section \<open>Quality evaluation\<close>

lemma label_propagation_returns:
  assumes "graph \<noteq> []" and "fst ` set graph \<subseteq> fst ` set initial" and "0 < m"
  shows "\<exists>final k conv. label_propagation graph initial m thr = Inr (final, k, conv)"
proof -
  have "fst ` set (map (\<lambda>(p, ls). (p, remdups ls)) initial) = fst ` set initial"
    by force
  with assms(2) have "fst ` set graph \<subseteq> fst ` set (map (\<lambda>(p, ls). (p, remdups ls)) initial)"
    by simp
  from lp_loop_ok [OF assms(1) this assms(3), of thr] show ?thesis
    unfolding label_propagation_def by blast
qed

lemma first_with_id_distinct:
  assumes "distinct (map protein_id xs)" and "h < length xs"
  shows "first_with_id xs (protein_id (xs ! h)) j = Some (j + h)"
  using assms
proof (induction xs arbitrary: h j)
  case Nil
  then show ?case by simp
next
  case (Cons x xs)
  show ?case
  proof (cases h)
    case 0
    then show ?thesis by simp
  next
    case (Suc h')
    with Cons.prems have h': "h' < length xs" and d: "distinct (map protein_id xs)"
      and nx: "protein_id x \<notin> protein_id ` set xs" by auto
    from h' have "protein_id (xs ! h') \<in> protein_id ` set xs" by simp
    with nx have "protein_id x \<noteq> protein_id (xs ! h')" by metis
    with Cons.IH [OF d h', of "Suc j"] Suc show ?thesis by simp
  qed
qed

lemma length_mask_holdout: "length (mask_holdout h heap) = length heap"
  by (simp add: mask_holdout_def split: option.splits)

lemma length_fold_mask_holdout: "length (fold mask_holdout hs heap) = length heap"
  by (induction hs arbitrary: heap) (simp_all add: length_mask_holdout)

lemma mask_holdout_distinct:
  assumes "distinct (map protein_id heap)" and "h < length heap"
  shows "mask_holdout h heap = heap[h := mask_protein (heap ! h)]"
  using first_with_id_distinct [OF assms, of 0] by (simp add: mask_holdout_def)

lemma protein_id_mask [simp]: "protein_id (mask_protein p) = protein_id p"
  by (simp add: mask_protein_def)

lemma ids_list_update_mask:
  assumes "h < length heap"
  shows "map protein_id (heap[h := mask_protein (heap ! h)]) = map protein_id heap"
  using assms by (simp add: map_update list_update_same_conv)

lemma fold_mask_holdout_nth:
  assumes "distinct (map protein_id heap)" and "distinct hs" and "\<forall>h \<in> set hs. h < length heap"
    and "i < length heap"
  shows "fold mask_holdout hs heap ! i =
           (if i \<in> set hs then mask_protein (heap ! i) else heap ! i)"
  using assms
proof (induction hs arbitrary: heap)
  case Nil
  then show ?case by simp
next
  case (Cons h hs)
  let ?heap' = "heap[h := mask_protein (heap ! h)]"
  from Cons.prems have h: "h < length heap" and nh: "h \<notin> set hs" and dh: "distinct hs" by auto
  have step: "mask_holdout h heap = ?heap'"
    using mask_holdout_distinct [OF Cons.prems(1) h] .
  have d': "distinct (map protein_id ?heap')"
    using ids_list_update_mask [OF h] Cons.prems(1) by simp
  have r: "\<forall>h \<in> set hs. h < length ?heap'" using Cons.prems(3) by simp
  have i': "i < length ?heap'" using Cons.prems(4) by simp
  have "fold mask_holdout (h # hs) heap ! i = fold mask_holdout hs ?heap' ! i"
    using step by simp
  also have "\<dots> = (if i \<in> set hs then mask_protein (?heap' ! i) else ?heap' ! i)"
    by (rule Cons.IH [OF d' dh r i'])
  also have "\<dots> = (if i \<in> set (h # hs) then mask_protein (heap ! i) else heap ! i)"
    using nh h Cons.prems(4) by (auto simp: nth_list_update)
  finally show ?case .
qed

lemma count_predictions_error:
  "count_predictions heap final hs acc = Inl e \<Longrightarrow> e = KeyError"
proof (induction hs arbitrary: acc)
  case Nil
  then show ?case by simp
next
  case (Cons h hs)
  obtain c t where acc: "acc = (c, t)" by (cases acc)
  from Cons.prems show ?case
    by (auto simp: acc Let_def split: option.splits if_splits dest: Cons.IH)
qed

lemma count_predictions_ok:
  assumes "\<forall>h \<in> set hs. original_labels (heap ! h) = Some (orig h)"
  shows "count_predictions heap final hs (c, t) =
           Inr (c + int (length (filter (\<lambda>h. prediction_of final (heap ! h) \<noteq> [] \<and>
                   set (orig h) \<inter> set (prediction_of final (heap ! h)) \<noteq> {}) hs)),
                t + int (length (filter (\<lambda>h. prediction_of final (heap ! h) \<noteq> []) hs)))"
  using assms
proof (induction hs arbitrary: c t)
  case Nil
  then show ?case by simp
next
  case (Cons h hs)
  from Cons.prems have o: "original_labels (heap ! h) = Some (orig h)"
    and r: "\<forall>h \<in> set hs. original_labels (heap ! h) = Some (orig h)" by auto
  have inter: "(\<exists>x \<in> set (orig h). x \<in> set (prediction_of final (heap ! h))) \<longleftrightarrow>
      set (orig h) \<inter> set (prediction_of final (heap ! h)) \<noteq> {}" by auto
  show ?case
    using Cons.IH [OF r] o inter by (simp add: Let_def)
qed

lemma annotated_positions:
  "map (\<lambda>i. data ! i) (filter (\<lambda>i. P (data ! i)) [0..<length data]) = filter P data"
proof -
  have "filter P (map (\<lambda>i. data ! i) [0..<length data]) =
          map (\<lambda>i. data ! i) (filter (P \<circ> (\<lambda>i. data ! i)) [0..<length data])"
    by (rule filter_map)
  then show ?thesis by (simp add: map_nth comp_def)
qed

lemma holdout_size_bounds:
  assumes "0 < n"
  shows "0 < max 1 (int n div 5) \<and> max 1 (int n div 5) \<le> int n"
  using assms by auto

lemma get_proteins_ok:
  assumes "driver st" and "attr = ''ec'' \<and> property = ''ec_numbers'' \<or> attr = ''go'' \<and> property = ''go_terms''"
  shows "get_proteins_for_label_propagation st attr =
           (Inr (map to_protein_data (label_rows st property)),
            st\<lparr>calls := calls st @ [LabelQuery property]\<rparr>)"
  using assms by (auto simp: get_proteins_for_label_propagation_def run_label_query_def)

lemma get_proteins_state:
  "get_proteins_for_label_propagation st attr = (Inl e, st1) \<Longrightarrow> e \<noteq> ZeroDivisionError"
  by (auto simp: get_proteins_for_label_propagation_def run_label_query_def
      driver_not_initialized_def attribute_error_def split: if_splits)

lemma evaluate_unfold:
  assumes "get_proteins_for_label_propagation st attr = (Inr data, st1)"
    and "filter (\<lambda>i. labels (data ! i) \<noteq> []) [0..<length data] = ann"
    and "ann \<noteq> []"
    and "random_sample rnd ann (max 1 (int (length ann) div 5)) = Inr hs"
    and "fold mask_holdout hs data = md"
  shows "evaluate_propagation_quality st attr rnd =
     (case label_propagation (build_graph md) (extract_initial_labels md) 100 (1 / 100) of
        Inl e \<Rightarrow> (Inl e, st1)
      | Inr (final, it, conv) \<Rightarrow>
          (case count_predictions md final hs (0, 0) of
             Inl e \<Rightarrow> (Inl e, st1)
           | Inr (c, t) \<Rightarrow>
               (case (if t > 0 then py_div c t else Inr 0) of
                  Inl e \<Rightarrow> (Inl e, st1)
                | Inr a \<Rightarrow>
                    (case py_div t (int (length hs)) of
                       Inl e \<Rightarrow> (Inl e, st1)
                     | Inr v \<Rightarrow>
                         (Inr (Evaluation
                            \<lparr>holdout_size = int (length hs), accuracy = a, coverage = v,
                             correct_predictions = c, total_predictions = t\<rparr>), st1)))))"
  using assms unfolding evaluate_propagation_quality_def by (simp add: Let_def)

lemma evaluate_no_zero_division:
  assumes "valid_sample rnd"
  shows "fst (evaluate_propagation_quality st attr rnd) \<noteq> Inl ZeroDivisionError"
proof (cases "get_proteins_for_label_propagation st attr")
  case (Pair r st1)
  show ?thesis
  proof (cases r)
    case (Inl e)
    with Pair get_proteins_state [of st attr e st1] show ?thesis
      by (simp add: evaluate_propagation_quality_def)
  next
    case (Inr data)
    define ann where "ann = filter (\<lambda>i. labels (data ! i) \<noteq> []) [0..<length data]"
    define k where "k = max 1 (int (length ann) div 5)"
    show ?thesis
    proof (cases "ann = []")
      case True
      with Pair Inr show ?thesis by (simp add: evaluate_propagation_quality_def ann_def)
    next
      case False
      then have n: "0 < length ann" by simp
      from holdout_size_bounds [OF n] have k: "0 < k" "k \<le> int (length ann)"
        by (auto simp: k_def)
      define hs where "hs = map (\<lambda>i. ann ! i) (rnd (length ann) (nat k))"
      have "\<not> (k < 0 \<or> int (length ann) < k)" using k by linarith
      then have rs: "random_sample rnd ann (max 1 (int (length ann) div 5)) = Inr hs"
        unfolding random_sample_def hs_def k_def by (simp only: if_False)
      have "nat k \<le> length ann" using k by linarith
      with assms have "length (rnd (length ann) (nat k)) = nat k"
        unfolding valid_sample_def by blast
      then have len: "int (length hs) = k" using k by (simp add: hs_def)
      define md where "md = fold mask_holdout hs data"
      have "data \<noteq> []" using False by (auto simp: ann_def)
      then have "md \<noteq> []"
        using length_fold_mask_holdout [of hs data] by (auto simp: md_def)
      then have g: "build_graph md \<noteq> []"
        by (rule build_graph_nonempty)
      note unf = evaluate_unfold [OF _ ann_def [symmetric] False rs md_def [symmetric],
          of st attr st1]
      show ?thesis
      proof (cases "label_propagation (build_graph md) (extract_initial_labels md) 100 (1 / 100)")
        case e: (Inl e)
        from label_propagation_error [OF e] g have "e = KeyError" by simp
        with Pair Inr e unf show ?thesis by simp
      next
        case ok: (Inr res)
        obtain final it conv where res: "res = (final, it, conv)" by (cases res)
        show ?thesis
        proof (cases "count_predictions md final hs (0, 0)")
          case e: (Inl e)
          from count_predictions_error [OF e] have "e = KeyError" .
          with Pair Inr ok res e unf show ?thesis by simp
        next
          case cp: (Inr ct)
          obtain c t where ct: "ct = (c, t)" by (cases ct)
          have acc: "\<exists>a. (if t > 0 then py_div c t else Inr 0) = Inr a"
            by (simp add: py_div_def)
          have cov: "\<exists>v. py_div t (int (length hs)) = Inr v"
            using len k by (simp add: py_div_def)
          from acc cov obtain a v where
            "(if t > 0 then py_div c t else Inr 0) = Inr a" "py_div t (int (length hs)) = Inr v"
            by blast
          with Pair Inr ok res cp ct unf show ?thesis by simp
        qed
      qed
    qed
  qed
qed

lemma distinct_map_nth:
  assumes "distinct xs" and "distinct is" and "\<forall>i \<in> set is. i < length xs"
  shows "distinct (map (\<lambda>i. xs ! i) is)"
proof -
  have "inj_on (\<lambda>i. xs ! i) (set is)"
    using assms(1,3) by (auto simp: inj_on_def nth_eq_iff_index_eq)
  with assms(2) show ?thesis by (simp add: distinct_map)
qed

lemma prediction_of_mask [simp]: "prediction_of final (mask_protein p) = prediction_of final p"
  by (simp add: prediction_of_def)

lemma update_fresh: "k \<notin> fst ` set al \<Longrightarrow> AList.update k v al = al @ [(k, v)]"
  by (induction al) auto

lemma fold_update_fresh:
  assumes "distinct (map k xs)" and "k ` set xs \<inter> fst ` set acc = {}"
  shows "fold (\<lambda>x acc. AList.update (k x) (v x) acc) xs acc = acc @ map (\<lambda>x. (k x, v x)) xs"
  using assms
proof (induction xs arbitrary: acc)
  case Nil
  then show ?case by simp
next
  case (Cons x xs)
  from Cons.prems have f: "k x \<notin> fst ` set acc" by auto
  from Cons.prems have d: "distinct (map k xs)" and n: "k x \<notin> k ` set xs" by auto
  have "k ` set xs \<inter> fst ` set (acc @ [(k x, v x)]) = {}"
    using Cons.prems(2) n by auto
  from Cons.IH [OF d this] show ?case
    by (simp add: update_fresh [OF f])
qed

lemma build_graph_distinct:
  "distinct (map protein_id ps) \<Longrightarrow> build_graph ps = map (\<lambda>p. (protein_id p, neighbors p)) ps"
  unfolding build_graph_def using fold_update_fresh [of protein_id ps "[]" neighbors] by simp

lemma extract_initial_labels_distinct:
  "distinct (map protein_id ps) \<Longrightarrow>
   extract_initial_labels ps = map (\<lambda>p. (protein_id p, labels p)) ps"
proof -
  assume d: "distinct (map protein_id ps)"
  have "(\<lambda>protein. if labels protein \<noteq> [] then labels protein else []) = labels"
    by auto
  then show ?thesis
    unfolding extract_initial_labels_def
    using fold_update_fresh [OF d, of "[]" "\<lambda>protein. if labels protein \<noteq> [] then labels protein else []"]
    by simp
qed

lemma is_prediction_iff: "is_prediction final p \<longleftrightarrow> prediction_of final p \<noteq> []"
  by (simp add: is_prediction_def prediction_of_def split: option.splits)

lemma is_correct_iff:
  "is_correct final p \<longleftrightarrow>
     prediction_of final p \<noteq> [] \<and> set (labels p) \<inter> set (prediction_of final p) \<noteq> {}"
  by (auto simp: is_correct_def prediction_of_def split: option.splits)

text \<open>
  C7. For a snapshot with pairwise distinct \<open>protein_id\<close>s of which \<open>n \<ge> 1\<close> proteins
  have seed labels, and a draw that behaves as \<open>random.sample\<close> does, the evaluation
  returns its report: the holdout consists of exactly \<open>max(1, n // 5)\<close> different
  seed-labelled proteins; propagation runs with 100 iterations and threshold 0.01 on
  the neighbours of the snapshot and on the labels of the snapshot with exactly the
  held-out proteins' labels replaced by the empty list; \<open>total_predictions\<close> counts the
  held-out proteins to which the final assignment gives a non-empty label list,
  \<open>correct_predictions\<close> those whose final labels meet the labels they had in the
  snapshot as fetched; \<open>coverage\<close> is \<open>total_predictions / holdout_size\<close>, and
  \<open>accuracy\<close> is \<open>correct_predictions / total_predictions\<close>, or 0 when there is no
  prediction.
\<close>

theorem evaluation_quality:
  assumes "driver st"
    and "attr = ''ec'' \<and> property = ''ec_numbers'' \<or> attr = ''go'' \<and> property = ''go_terms''"
    and "data = map to_protein_data (label_rows st property)"
    and "distinct (map protein_id data)"
    and "annotated = filter (\<lambda>p. labels p \<noteq> []) data"
    and "annotated \<noteq> []"
    and "valid_sample rnd"
  shows "\<exists>holdout final iterations conv.
           int (length holdout) = max 1 (int (length annotated) div 5) \<and>
           distinct holdout \<and> set holdout \<subseteq> set annotated \<and>
           label_propagation
               (map (\<lambda>p. (protein_id p, neighbors p)) data)
               (map (\<lambda>p. (protein_id p, if p \<in> set holdout then [] else labels p)) data)
               100 (1 / 100)
             = Inr (final, iterations, conv) \<and>
           evaluate_propagation_quality st attr rnd =
             (Inr (Evaluation
                \<lparr>holdout_size = max 1 (int (length annotated) div 5),
                 accuracy =
                   (if predictions_made final holdout = 0 then 0
                    else of_int (correct_made final holdout) /
                         of_int (predictions_made final holdout)),
                 coverage =
                   of_int (predictions_made final holdout) /
                   of_int (max 1 (int (length annotated) div 5)),
                 correct_predictions = correct_made final holdout,
                 total_predictions = predictions_made final holdout\<rparr>),
              st\<lparr>calls := calls st @ [LabelQuery property]\<rparr>)"
proof -
  define st1 where "st1 = st\<lparr>calls := calls st @ [LabelQuery property]\<rparr>"
  have gp: "get_proteins_for_label_propagation st attr = (Inr data, st1)"
    using get_proteins_ok [OF assms(1,2)] by (simp add: assms(3) st1_def)
  define idx where "idx = filter (\<lambda>i. labels (data ! i) \<noteq> []) [0..<length data]"
  have idx_ann: "map (\<lambda>i. data ! i) idx = annotated"
    unfolding idx_def assms(5) by (rule annotated_positions)
  then have len_idx: "length idx = length annotated"
    by (metis length_map)
  have idx_ne: "idx \<noteq> []" using assms(6) idx_ann by auto
  have idx_d: "distinct idx" by (simp add: idx_def)
  have idx_in: "\<forall>h \<in> set idx. h < length data \<and> labels (data ! h) \<noteq> []"
    by (auto simp: idx_def)
  define k where "k = max 1 (int (length idx) div 5)"
  have n: "0 < length idx" using idx_ne by simp
  from holdout_size_bounds [OF n] have k: "0 < k" "k \<le> int (length idx)"
    by (auto simp: k_def)
  define pos where "pos = rnd (length idx) (nat k)"
  have "nat k \<le> length idx" using k by linarith
  with assms(7) have pos: "length pos = nat k" "distinct pos" "\<forall>i \<in> set pos. i < length idx"
    unfolding valid_sample_def pos_def by blast+
  define hs where "hs = map (\<lambda>i. idx ! i) pos"
  have "\<not> (k < 0 \<or> int (length idx) < k)" using k by linarith
  then have rs: "random_sample rnd idx (max 1 (int (length idx) div 5)) = Inr hs"
    unfolding random_sample_def hs_def k_def pos_def by (simp only: if_False)
  have hs_len: "int (length hs) = k" using pos(1) k by (simp add: hs_def)
  have hs_d: "distinct hs"
    unfolding hs_def by (rule distinct_map_nth [OF idx_d pos(2,3)])
  have hs_sub: "set hs \<subseteq> set idx" using pos(3) by (auto simp: hs_def)
  have hs_in: "\<forall>h \<in> set hs. h < length data" using hs_sub idx_in by auto
  have data_d: "distinct data" using assms(4) by (simp add: distinct_map)
  define holdout where "holdout = map (\<lambda>h. data ! h) hs"
  have ho_len: "int (length holdout) = max 1 (int (length annotated) div 5)"
    using hs_len by (simp add: holdout_def k_def len_idx)
  have ho_d: "distinct holdout"
    unfolding holdout_def by (rule distinct_map_nth [OF data_d hs_d hs_in])
  have ho_sub: "set holdout \<subseteq> set annotated"
    using hs_sub idx_in by (auto simp: holdout_def assms(5))
  have mem: "data ! i \<in> set holdout \<longleftrightarrow> i \<in> set hs" if "i < length data" for i
    using that hs_in data_d by (auto simp: holdout_def nth_eq_iff_index_eq)
  define md where "md = fold mask_holdout hs data"
  have md_len: "length md = length data"
    by (simp add: md_def length_fold_mask_holdout)
  have md_nth: "md ! i = (if i \<in> set hs then mask_protein (data ! i) else data ! i)"
    if "i < length data" for i
    unfolding md_def by (rule fold_mask_holdout_nth [OF assms(4) hs_d hs_in that])
  have md_eq: "md = map (\<lambda>p. if p \<in> set holdout then mask_protein p else p) data"
  proof (rule nth_equalityI)
    show "length md = length (map (\<lambda>p. if p \<in> set holdout then mask_protein p else p) data)"
      by (simp add: md_len)
  next
    fix i assume "i < length md"
    then have i: "i < length data" by (simp add: md_len)
    then show "md ! i = map (\<lambda>p. if p \<in> set holdout then mask_protein p else p) data ! i"
      using md_nth [OF i] mem [OF i] by simp
  qed
  have md_ids: "map protein_id md = map protein_id data"
    unfolding md_eq by (simp add: comp_def if_distrib [of protein_id] cong: if_cong)
  then have md_d: "distinct (map protein_id md)" using assms(4) by simp
  have bg: "build_graph md = map (\<lambda>p. (protein_id p, neighbors p)) data"
    unfolding build_graph_distinct [OF md_d]
    unfolding md_eq by (auto simp: mask_protein_def)
  have el: "extract_initial_labels md =
              map (\<lambda>p. (protein_id p, if p \<in> set holdout then [] else labels p)) data"
    unfolding extract_initial_labels_distinct [OF md_d]
    unfolding md_eq by (auto simp: mask_protein_def)
  have "data \<noteq> []" using assms(5,6) by auto
  then have "md \<noteq> []" using md_len by auto
  then have g: "build_graph md \<noteq> []" by (rule build_graph_nonempty)
  have cov: "fst ` set (build_graph md) \<subseteq> fst ` set (extract_initial_labels md)"
    by (simp add: keys_build_graph keys_extract_initial_labels)
  from label_propagation_returns [OF g cov, of 100 "1 / 100"]
  obtain final it conv where
    lp: "label_propagation (build_graph md) (extract_initial_labels md) 100 (1 / 100)
           = Inr (final, it, conv)" by auto
  have orig: "\<forall>h \<in> set hs. original_labels (md ! h) = Some (labels (data ! h))"
    using hs_in md_nth by (simp add: mask_protein_def)
  have pred: "prediction_of final (md ! h) = prediction_of final (data ! h)" if "h \<in> set hs" for h
    using that hs_in md_nth by simp
  have t_eq: "int (length (filter (\<lambda>h. prediction_of final (md ! h) \<noteq> []) hs))
                = predictions_made final holdout"
  proof -
    have "filter (\<lambda>h. prediction_of final (md ! h) \<noteq> []) hs =
            filter (is_prediction final \<circ> (\<lambda>h. data ! h)) hs"
      using pred by (intro filter_cong) (auto simp: is_prediction_iff)
    then show ?thesis
      unfolding predictions_made_def holdout_def filter_map by simp
  qed
  have c_eq: "int (length (filter (\<lambda>h. prediction_of final (md ! h) \<noteq> [] \<and>
                 set (labels (data ! h)) \<inter> set (prediction_of final (md ! h)) \<noteq> {}) hs))
                = correct_made final holdout"
  proof -
    have "filter (\<lambda>h. prediction_of final (md ! h) \<noteq> [] \<and>
                 set (labels (data ! h)) \<inter> set (prediction_of final (md ! h)) \<noteq> {}) hs =
            filter (is_correct final \<circ> (\<lambda>h. data ! h)) hs"
      using pred by (intro filter_cong) (auto simp: is_correct_iff)
    then show ?thesis
      unfolding correct_made_def holdout_def filter_map by simp
  qed
  have cp: "count_predictions md final hs (0, 0) =
              Inr (correct_made final holdout, predictions_made final holdout)"
    using count_predictions_ok [OF orig, of final 0 0] t_eq c_eq by simp
  have t0: "0 \<le> predictions_made final holdout" by (simp add: predictions_made_def)
  have acc: "(if predictions_made final holdout > 0
              then py_div (correct_made final holdout) (predictions_made final holdout)
              else Inr 0) =
             Inr (if predictions_made final holdout = 0 then 0
                  else of_int (correct_made final holdout) / of_int (predictions_made final holdout))"
    using t0 by (auto simp: py_div_def)
  have cv: "py_div (predictions_made final holdout) (int (length hs)) =
              Inr (of_int (predictions_made final holdout) /
                   of_int (max 1 (int (length annotated) div 5)))"
    using hs_len k by (simp add: py_div_def k_def len_idx)
  have hs_len': "int (length hs) = max 1 (int (length annotated) div 5)"
    using hs_len by (simp add: k_def len_idx)
  have "evaluate_propagation_quality st attr rnd =
          (Inr (Evaluation
                \<lparr>holdout_size = max 1 (int (length annotated) div 5),
                 accuracy =
                   (if predictions_made final holdout = 0 then 0
                    else of_int (correct_made final holdout) /
                         of_int (predictions_made final holdout)),
                 coverage =
                   of_int (predictions_made final holdout) /
                   of_int (max 1 (int (length annotated) div 5)),
                 correct_predictions = correct_made final holdout,
                 total_predictions = predictions_made final holdout\<rparr>), st1)"
    unfolding evaluate_unfold [OF gp idx_def [symmetric] idx_ne rs md_def [symmetric]]
    unfolding lp cp sum.case prod.case acc cv
    unfolding sum.case hs_len' ..
  with ho_len ho_d ho_sub lp show ?thesis
    unfolding bg el st1_def by blast
qed

lemma valid_sample_first_k: "valid_sample first_k"
  by (auto simp: valid_sample_def first_k_def)

lemma chain_data:
  "map to_protein_data (label_rows chain_stores ''ec_numbers'') =
     [\<lparr>protein_id = ''A'', labels = [''1.1.1.1''], neighbors = [''B''], original_labels = None\<rparr>,
      \<lparr>protein_id = ''B'', labels = [], neighbors = [''A'', ''C''], original_labels = None\<rparr>,
      \<lparr>protein_id = ''C'', labels = [''2.2.2.2''], neighbors = [''B''], original_labels = None\<rparr>]"
  by (simp add: chain_stores_def chain_rows_def to_protein_data_def)

lemma pair_data:
  "map to_protein_data (label_rows pair_stores ''ec_numbers'') =
     [\<lparr>protein_id = ''A'', labels = [''1.1.1.1''], neighbors = [''B''], original_labels = None\<rparr>,
      \<lparr>protein_id = ''B'', labels = [''1.1.1.1''], neighbors = [''A''], original_labels = None\<rparr>]"
  by (simp add: pair_stores_def pair_rows_def to_protein_data_def)

lemma pair_evaluation:
  "evaluate_propagation_quality pair_stores ''ec'' first_k =
     (Inr (Evaluation \<lparr>holdout_size = 1, accuracy = 1, coverage = 1,
                        correct_predictions = 1, total_predictions = 1\<rparr>),
      pair_stores\<lparr>calls := calls pair_stores @ [LabelQuery ''ec_numbers'']\<rparr>)"
  by (simp add: evaluate_propagation_quality_def get_proteins_for_label_propagation_def
      run_label_query_def pair_stores_def pair_rows_def to_protein_data_def
      random_sample_def first_k_def mask_holdout_def mask_protein_def build_graph_def
      extract_initial_labels_def label_propagation_def lp_eval prediction_of_def Let_def)

lemma chain_evaluation:
  "evaluate_propagation_quality chain_stores ''ec'' first_k =
     (Inr (Evaluation \<lparr>holdout_size = 1, accuracy = 0, coverage = 1,
                        correct_predictions = 0, total_predictions = 1\<rparr>),
      chain_stores\<lparr>calls := calls chain_stores @ [LabelQuery ''ec_numbers'']\<rparr>)"
  by (simp add: evaluate_propagation_quality_def get_proteins_for_label_propagation_def
      run_label_query_def chain_stores_def chain_rows_def to_protein_data_def
      random_sample_def first_k_def mask_holdout_def mask_protein_def build_graph_def
      extract_initial_labels_def label_propagation_def lp_eval prediction_of_def Let_def)

theorem evaluation_quality_witness:
  "driver pair_stores \<and>
   distinct (map protein_id (map to_protein_data (label_rows pair_stores ''ec_numbers''))) \<and>
   filter (\<lambda>p. labels p \<noteq> []) (map to_protein_data (label_rows pair_stores ''ec_numbers'')) \<noteq> [] \<and>
   valid_sample first_k \<and>
   max 1 (int (length (filter (\<lambda>p. labels p \<noteq> [])
       (map to_protein_data (label_rows pair_stores ''ec_numbers'')))) div 5) = 1 \<and>
   evaluate_propagation_quality pair_stores ''ec'' first_k =
     (Inr (Evaluation \<lparr>holdout_size = 1, accuracy = 1, coverage = 1,
                        correct_predictions = 1, total_predictions = 1\<rparr>),
      pair_stores\<lparr>calls := calls pair_stores @ [LabelQuery ''ec_numbers'']\<rparr>) \<and>
   (\<exists>(holdout :: (string, string) protein_data list) (final :: (string, string list) dict)
       iterations conv.
      int (length holdout) = 1 \<and>
      label_propagation
          (map (\<lambda>p. (protein_id p, neighbors p))
             (map to_protein_data (label_rows pair_stores ''ec_numbers'')))
          (map (\<lambda>p. (protein_id p, if p \<in> set holdout then [] else labels p))
             (map to_protein_data (label_rows pair_stores ''ec_numbers'')))
          100 (1 / 100) = Inr (final, iterations, conv) \<and>
      predictions_made final holdout = 1 \<and> correct_made final holdout = 1) \<and>
   driver chain_stores \<and>
   distinct (map protein_id (map to_protein_data (label_rows chain_stores ''ec_numbers''))) \<and>
   filter (\<lambda>p. labels p \<noteq> []) (map to_protein_data (label_rows chain_stores ''ec_numbers'')) \<noteq> [] \<and>
   evaluate_propagation_quality chain_stores ''ec'' first_k =
     (Inr (Evaluation \<lparr>holdout_size = 1, accuracy = 0, coverage = 1,
                        correct_predictions = 0, total_predictions = 1\<rparr>),
      chain_stores\<lparr>calls := calls chain_stores @ [LabelQuery ''ec_numbers'']\<rparr>) \<and>
   (\<exists>(holdout :: (string, string) protein_data list) (final :: (string, string list) dict)
       iterations conv.
      int (length holdout) = 1 \<and>
      label_propagation
          (map (\<lambda>p. (protein_id p, neighbors p))
             (map to_protein_data (label_rows chain_stores ''ec_numbers'')))
          (map (\<lambda>p. (protein_id p, if p \<in> set holdout then [] else labels p))
             (map to_protein_data (label_rows chain_stores ''ec_numbers'')))
          100 (1 / 100) = Inr (final, iterations, conv) \<and>
      predictions_made final holdout = 1 \<and> correct_made final holdout = 0)"
proof -
  let ?data = "map to_protein_data (label_rows pair_stores ''ec_numbers'')"
  let ?cdata = "map to_protein_data (label_rows chain_stores ''ec_numbers'')"
  have d: "driver pair_stores" by (simp add: pair_stores_def)
  have a: "''ec'' = ''ec'' \<and> ''ec_numbers'' = ''ec_numbers'' \<or>
           ''ec'' = ''go'' \<and> ''ec_numbers'' = ''go_terms''" by simp
  have i: "distinct (map protein_id ?data)" by (simp add: pair_data)
  have n: "filter (\<lambda>p. labels p \<noteq> []) ?data \<noteq> []" by (simp add: pair_data)
  have k: "max 1 (int (length (filter (\<lambda>p. labels p \<noteq> []) ?data)) div 5) = 1"
    by (simp add: pair_data)
  from evaluation_quality [OF d a refl i refl n valid_sample_first_k]
  obtain holdout :: "(string, string) protein_data list"
    and final :: "(string, string list) dict" and iterations conv where
    l: "int (length holdout) = 1"
    and p: "label_propagation (map (\<lambda>p. (protein_id p, neighbors p)) ?data)
          (map (\<lambda>p. (protein_id p, if p \<in> set holdout then [] else labels p)) ?data)
          100 (1 / 100) = Inr (final, iterations, conv)"
    and e: "evaluate_propagation_quality pair_stores ''ec'' first_k =
        (Inr (Evaluation
           \<lparr>holdout_size = 1,
            accuracy =
              (if predictions_made final holdout = 0 then 0
               else of_int (correct_made final holdout) / of_int (predictions_made final holdout)),
            coverage = of_int (predictions_made final holdout) / of_int 1,
            correct_predictions = correct_made final holdout,
            total_predictions = predictions_made final holdout\<rparr>),
         pair_stores\<lparr>calls := calls pair_stores @ [LabelQuery ''ec_numbers'']\<rparr>)"
    unfolding k by blast
  from e pair_evaluation
  have c: "predictions_made final holdout = 1" "correct_made final holdout = 1"
    by simp_all
  from l p c have pair_part: "\<exists>(holdout :: (string, string) protein_data list)
       (final :: (string, string list) dict) iterations conv.
      int (length holdout) = 1 \<and>
      label_propagation (map (\<lambda>p. (protein_id p, neighbors p)) ?data)
          (map (\<lambda>p. (protein_id p, if p \<in> set holdout then [] else labels p)) ?data)
          100 (1 / 100) = Inr (final, iterations, conv) \<and>
      predictions_made final holdout = 1 \<and> correct_made final holdout = 1"
    by blast
  have d': "driver chain_stores" by (simp add: chain_stores_def)
  have i': "distinct (map protein_id ?cdata)" by (simp add: chain_data)
  have n': "filter (\<lambda>p. labels p \<noteq> []) ?cdata \<noteq> []" by (simp add: chain_data)
  have k': "max 1 (int (length (filter (\<lambda>p. labels p \<noteq> []) ?cdata)) div 5) = 1"
    by (simp add: chain_data)
  from evaluation_quality [OF d' a refl i' refl n' valid_sample_first_k]
  obtain holdout' :: "(string, string) protein_data list"
    and final' :: "(string, string list) dict" and iterations' conv' where
    l': "int (length holdout') = 1"
    and p': "label_propagation (map (\<lambda>p. (protein_id p, neighbors p)) ?cdata)
          (map (\<lambda>p. (protein_id p, if p \<in> set holdout' then [] else labels p)) ?cdata)
          100 (1 / 100) = Inr (final', iterations', conv')"
    and e': "evaluate_propagation_quality chain_stores ''ec'' first_k =
        (Inr (Evaluation
           \<lparr>holdout_size = 1,
            accuracy =
              (if predictions_made final' holdout' = 0 then 0
               else of_int (correct_made final' holdout') /
                    of_int (predictions_made final' holdout')),
            coverage = of_int (predictions_made final' holdout') / of_int 1,
            correct_predictions = correct_made final' holdout',
            total_predictions = predictions_made final' holdout'\<rparr>),
         chain_stores\<lparr>calls := calls chain_stores @ [LabelQuery ''ec_numbers'']\<rparr>)"
    unfolding k' by blast
  from e' chain_evaluation
  have c': "predictions_made final' holdout' = 1" "correct_made final' holdout' = 0"
    by simp_all
  from l' p' c' have chain_part: "\<exists>(holdout :: (string, string) protein_data list)
       (final :: (string, string list) dict) iterations conv.
      int (length holdout) = 1 \<and>
      label_propagation (map (\<lambda>p. (protein_id p, neighbors p)) ?cdata)
          (map (\<lambda>p. (protein_id p, if p \<in> set holdout then [] else labels p)) ?cdata)
          100 (1 / 100) = Inr (final, iterations, conv) \<and>
      predictions_made final holdout = 1 \<and> correct_made final holdout = 0"
    by blast
  from d i n valid_sample_first_k k pair_evaluation pair_part d' i' n' chain_evaluation chain_part
  show ?thesis by (intro conjI)
qed

text \<open>
  C10. No run of \<open>propagate_labels\<close> raises \<open>ZeroDivisionError\<close>: the empty snapshot is
  rejected before \<open>_label_propagation\<close> is called, and \<open>_label_propagation\<close> divides by
  zero on an empty graph only. With a draw that behaves as \<open>random.sample\<close> does, no
  run of \<open>evaluate_propagation_quality\<close> raises it either: the snapshot it propagates
  on is not empty, the holdout has \<open>max(1, n // 5) \<ge> 1\<close> proteins, and the accuracy is
  divided only when \<open>total_predictions > 0\<close>.
\<close>

theorem no_division_by_zero:
  "fst (propagate_labels st req) \<noteq> Inl ZeroDivisionError \<and>
   (label_propagation graph initial m thr = Inl ZeroDivisionError \<longrightarrow> graph = []) \<and>
   (valid_sample rnd \<longrightarrow>
      fst (evaluate_propagation_quality st attr rnd) \<noteq> Inl ZeroDivisionError)"
  using propagate_labels_no_zero_division [of st req]
    label_propagation_error [of graph initial m thr ZeroDivisionError]
    evaluate_no_zero_division [of rnd st attr]
  by blast

theorem no_division_by_zero_witness:
  "valid_sample first_k \<and>
   fst (propagate_labels chain_stores
          \<lparr>attribute = ''ec'', max_iterations = 10, threshold = 1 / 100,
           min_similarity = 1 / 10\<rparr>) \<noteq> Inl ZeroDivisionError \<and>
   fst (evaluate_propagation_quality chain_stores ''ec'' first_k) \<noteq> Inl ZeroDivisionError \<and>
   evaluate_propagation_quality chain_stores ''ec'' first_k =
     (Inr (Evaluation \<lparr>holdout_size = 1, accuracy = 0, coverage = 1,
                        correct_predictions = 0, total_predictions = 1\<rparr>),
      chain_stores\<lparr>calls := calls chain_stores @ [LabelQuery ''ec_numbers'']\<rparr>)"
proof -
  have e: "evaluate_propagation_quality chain_stores ''ec'' first_k =
     (Inr (Evaluation \<lparr>holdout_size = 1, accuracy = 0, coverage = 1,
                        correct_predictions = 0, total_predictions = 1\<rparr>),
      chain_stores\<lparr>calls := calls chain_stores @ [LabelQuery ''ec_numbers'']\<rparr>)"
    by (simp add: evaluate_propagation_quality_def get_proteins_for_label_propagation_def
        run_label_query_def chain_stores_def chain_rows_def to_protein_data_def
        random_sample_def first_k_def mask_holdout_def mask_protein_def build_graph_def
        extract_initial_labels_def label_propagation_def lp_eval prediction_of_def Let_def)
  from no_division_by_zero
    [of chain_stores "\<lparr>attribute = ''ec'', max_iterations = 10, threshold = 1 / 100,
           min_similarity = 1 / 10\<rparr>" "[]" "[]" 0 0 first_k "''ec''"]
    valid_sample_first_k e
  show ?thesis by simp
qed

section \<open>The inverted index\<close>

lemma map_of_index_append:
  "map_of (index_append pid a idx) =
     (map_of idx)(a \<mapsto> (case map_of idx a of None \<Rightarrow> [] | Some l \<Rightarrow> l) @ [pid])"
  by (simp add: index_append_def update_conv')

lemma map_of_fold_index_append:
  assumes "distinct ds"
  shows "map_of (fold (index_append pid) ds idx) d =
           (if d \<in> set ds
            then Some ((case map_of idx d of None \<Rightarrow> [] | Some l \<Rightarrow> l) @ [pid])
            else map_of idx d)"
  using assms
proof (induction ds arbitrary: idx)
  case Nil
  then show ?case by simp
next
  case (Cons a ds)
  from Cons.prems have d: "distinct ds" and na: "a \<notin> set ds" by auto
  show ?case
    using Cons.IH [OF d, of "index_append pid a idx"] na
    by (auto simp: map_of_index_append)
qed

lemma distinct_fold_index_append:
  "distinct (map fst idx) \<Longrightarrow> distinct (map fst (fold (index_append pid) ds idx))"
  by (induction ds arbitrary: idx) (simp_all add: index_append_def distinct_update)

lemma map_of_index_fold:
  "map_of (fold (\<lambda>protein idx. fold (index_append (protein_id protein))
                                   (py_set (domains protein)) idx) ps idx) d =
     (if d \<in> (\<Union>p \<in> set ps. set (domains p))
      then Some ((case map_of idx d of None \<Rightarrow> [] | Some l \<Rightarrow> l) @ domain_bucket ps d)
      else map_of idx d)"
proof (induction ps arbitrary: idx)
  case Nil
  then show ?case by simp
next
  case (Cons p ps)
  let ?idx' = "fold (index_append (protein_id p)) (py_set (domains p)) idx"
  have 1: "map_of ?idx' d =
      (if d \<in> set (domains p)
       then Some ((case map_of idx d of None \<Rightarrow> [] | Some l \<Rightarrow> l) @ [protein_id p])
       else map_of idx d)"
    using map_of_fold_index_append [of "py_set (domains p)" "protein_id p" idx d]
    by (simp add: py_set_def)
  show ?case
    using Cons.IH [of ?idx'] 1
    by (auto simp: domain_bucket_def)
qed

lemma distinct_index_fold:
  "distinct (map fst idx) \<Longrightarrow>
   distinct (map fst (fold (\<lambda>protein idx. fold (index_append (protein_id protein))
                                   (py_set (domains protein)) idx) ps idx))"
  by (induction ps arbitrary: idx) (simp_all add: distinct_fold_index_append)

lemma map_of_build_domain_index:
  "map_of (build_domain_index ps) d =
     (if d \<in> (\<Union>p \<in> set ps. set (domains p)) then Some (domain_bucket ps d) else None)"
  unfolding build_domain_index_def using map_of_index_fold [of ps "[]" d] by simp

lemma distinct_build_domain_index: "distinct (map fst (build_domain_index ps))"
  unfolding build_domain_index_def by (rule distinct_index_fold) simp

lemma in_build_domain_index:
  "(d, pl) \<in> set (build_domain_index ps) \<longleftrightarrow>
     d \<in> (\<Union>p \<in> set ps. set (domains p)) \<and> pl = domain_bucket ps d"
proof -
  have "(d, pl) \<in> set (build_domain_index ps) \<longleftrightarrow> map_of (build_domain_index ps) d = Some pl"
    using distinct_build_domain_index [of ps] by simp
  then show ?thesis by (auto simp: map_of_build_domain_index)
qed

section \<open>Pairs of positions\<close>

lemma index_pairs_short: "length xs < 2 \<Longrightarrow> index_pairs xs = []"
  by (cases xs) (auto simp: less_Suc_eq)

lemma index_pairs_map:
  "index_pairs (map f xs) = map (\<lambda>(a, b). (f a, f b)) (index_pairs xs)"
  by (induction xs) auto

lemma set_index_pairs_filter:
  "set (index_pairs (filter P xs)) = {(a, b). (a, b) \<in> set (index_pairs xs) \<and> P a \<and> P b}"
  by (induction xs) auto

lemma index_pairs_members:
  "(a, b) \<in> set (index_pairs xs) \<Longrightarrow> a \<in> set xs \<and> b \<in> set xs"
  by (induction xs) auto

lemma index_pairs_distinct:
  "distinct xs \<Longrightarrow> (a, b) \<in> set (index_pairs xs) \<Longrightarrow> a \<noteq> b \<and> (b, a) \<notin> set (index_pairs xs)"
  by (induction xs) (auto dest: index_pairs_members)

lemma distinct_index_pairs: "distinct xs \<Longrightarrow> distinct (index_pairs xs)"
  by (induction xs) (auto simp: distinct_map inj_on_def dest: index_pairs_members)

lemma in_bucket_pairs:
  "(p1, p2) \<in> set (index_pairs (domain_bucket ps d)) \<longleftrightarrow>
     (\<exists>(p, q) \<in> set (index_pairs ps).
        d \<in> set (domains p) \<and> d \<in> set (domains q) \<and> p1 = protein_id p \<and> p2 = protein_id q)"
  unfolding domain_bucket_def index_pairs_map
  by (auto simp: set_index_pairs_filter)

section \<open>The accumulated pairs\<close>

lemma bucket_pairs_events:
  "bucket_pairs (d, pl) pp =
     fold (\<lambda>(k, d). record_pair d k) (map (\<lambda>(p1, p2). (pair_key p1 p2, d)) (index_pairs pl)) pp"
proof -
  have "fold (\<lambda>(p1, p2). record_pair d (pair_key p1 p2)) xs pp =
        fold (\<lambda>(k, d). record_pair d k) (map (\<lambda>(p1, p2). (pair_key p1 p2, d)) xs) pp" for xs
    by (induction xs arbitrary: pp) (auto simp: fold_map comp_def)
  then show ?thesis
    by (simp add: bucket_pairs_def index_pairs_short)
qed

lemma fold_bucket_pairs_events:
  "fold bucket_pairs idx pp = fold (\<lambda>(k, d). record_pair d k) (pair_events idx) pp"
proof (induction idx arbitrary: pp)
  case Nil
  then show ?case by (simp add: pair_events_def)
next
  case (Cons b idx)
  obtain d pl where b: "b = (d, pl)" by (cases b)
  have "pair_events (b # idx) =
          map (\<lambda>(p1, p2). (pair_key p1 p2, d)) (index_pairs pl) @ pair_events idx"
    by (simp add: pair_events_def b)
  then show ?case
    using Cons.IH by (simp add: b bucket_pairs_events)
qed

lemma collect_pairs_events:
  "collect_pairs idx = fold (\<lambda>(k, d). record_pair d k) (pair_events idx) []"
  by (simp add: collect_pairs_def fold_bucket_pairs_events)

lemma shared_of_record_pair:
  "shared_of (record_pair d k pp) k' =
     (if k' = k then set_add d (shared_of pp k) else shared_of pp k')"
  by (auto simp: shared_of_def record_pair_def update_conv' split: option.splits prod.splits)

lemma keys_record_pair: "fst ` set (record_pair d k pp) = insert k (fst ` set pp)"
  by (simp add: record_pair_def dom_update)

lemma distinct_record_pair:
  "distinct (map fst pp) \<Longrightarrow> distinct (map fst (record_pair d k pp))"
  by (simp add: record_pair_def distinct_update)

lemma set_set_add: "set (set_add d s) = insert d (set s)"
  by (auto simp: set_add_def)

lemma distinct_set_add: "distinct s \<Longrightarrow> distinct (set_add d s)"
  by (simp add: set_add_def)

lemma fold_record_pair:
  "set (shared_of (fold (\<lambda>(k, d). record_pair d k) evs pp) k) =
     set (shared_of pp k) \<union> {d. (k, d) \<in> set evs} \<and>
   fst ` set (fold (\<lambda>(k, d). record_pair d k) evs pp) = fst ` set pp \<union> fst ` set evs \<and>
   (distinct (map fst pp) \<longrightarrow> distinct (map fst (fold (\<lambda>(k, d). record_pair d k) evs pp))) \<and>
   ((\<forall>k. distinct (shared_of pp k)) \<longrightarrow>
      (\<forall>k. distinct (shared_of (fold (\<lambda>(k, d). record_pair d k) evs pp) k)))"
proof (induction evs arbitrary: pp)
  case Nil
  then show ?case by simp
next
  case (Cons ev evs)
  obtain k' d' where ev: "ev = (k', d')" by (cases ev)
  let ?pp = "record_pair d' k' pp"
  have s: "set (shared_of ?pp k) = set (shared_of pp k) \<union> (if k = k' then {d'} else {})"
    by (simp add: shared_of_record_pair set_set_add)
  have ks: "fst ` set ?pp = insert k' (fst ` set pp)" by (rule keys_record_pair)
  have dk: "distinct (map fst pp) \<longrightarrow> distinct (map fst ?pp)"
    by (simp add: distinct_record_pair)
  have ds: "(\<forall>k. distinct (shared_of pp k)) \<longrightarrow> (\<forall>k. distinct (shared_of ?pp k))"
    by (simp add: shared_of_record_pair distinct_set_add)
  from Cons.IH [of ?pp] have
    1: "set (shared_of (fold (\<lambda>(k, d). record_pair d k) evs ?pp) k) =
          set (shared_of ?pp k) \<union> {d. (k, d) \<in> set evs}"
    and 2: "fst ` set (fold (\<lambda>(k, d). record_pair d k) evs ?pp) = fst ` set ?pp \<union> fst ` set evs"
    and 3: "distinct (map fst ?pp) \<longrightarrow> distinct (map fst (fold (\<lambda>(k, d). record_pair d k) evs ?pp))"
    and 4: "(\<forall>k. distinct (shared_of ?pp k)) \<longrightarrow>
      (\<forall>k. distinct (shared_of (fold (\<lambda>(k, d). record_pair d k) evs ?pp) k))"
    by blast+
  have f: "fold (\<lambda>(k, d). record_pair d k) (ev # evs) pp = fold (\<lambda>(k, d). record_pair d k) evs ?pp"
    by (simp add: ev)
  show ?case
    unfolding f using 1 2 3 4 s ks dk ds by (auto simp: ev)
qed

lemma shared_of_Nil: "shared_of [] k = []"
  by (simp add: shared_of_def)

lemma collect_pairs_shared:
  "set (shared_of (collect_pairs idx) k) = {d. (k, d) \<in> set (pair_events idx)}"
  unfolding collect_pairs_events
  using fold_record_pair [of "pair_events idx" "[]" k, THEN conjunct1]
  by (simp only: shared_of_Nil list.set Un_empty_left)

lemma collect_pairs_keys: "fst ` set (collect_pairs idx) = fst ` set (pair_events idx)"
  unfolding collect_pairs_events
  using fold_record_pair [of "pair_events idx" "[]", THEN conjunct2, THEN conjunct1]
  by (simp only: list.set image_empty Un_empty_left)

lemma collect_pairs_distinct: "distinct (map fst (collect_pairs idx))"
  unfolding collect_pairs_events
  using fold_record_pair [of "pair_events idx" "[]", THEN conjunct2, THEN conjunct2, THEN conjunct1]
  by simp

lemma collect_pairs_shared_distinct: "distinct (shared_of (collect_pairs idx) k)"
  unfolding collect_pairs_events
  using fold_record_pair [of "pair_events idx" "[]", THEN conjunct2, THEN conjunct2, THEN conjunct2]
  by (metis shared_of_Nil distinct.simps(1))

lemma in_pair_events_index:
  "(k, d) \<in> set (pair_events (build_domain_index ps)) \<longleftrightarrow>
     (\<exists>(p, q) \<in> set (index_pairs ps).
        d \<in> set (domains p) \<inter> set (domains q) \<and> pair_key (protein_id p) (protein_id q) = k)"
proof -
  have "(k, d) \<in> set (pair_events (build_domain_index ps)) \<longleftrightarrow>
          (\<exists>pl p1 p2. (d, pl) \<in> set (build_domain_index ps) \<and>
             (p1, p2) \<in> set (index_pairs pl) \<and> pair_key p1 p2 = k)"
    by (auto simp: pair_events_def) force
  also have "\<dots> \<longleftrightarrow> (\<exists>p1 p2. d \<in> (\<Union>p \<in> set ps. set (domains p)) \<and>
             (p1, p2) \<in> set (index_pairs (domain_bucket ps d)) \<and> pair_key p1 p2 = k)"
    by (simp add: in_build_domain_index)
  also have "\<dots> \<longleftrightarrow> (\<exists>(p, q) \<in> set (index_pairs ps).
        d \<in> set (domains p) \<inter> set (domains q) \<and> pair_key (protein_id p) (protein_id q) = k)"
    unfolding in_bucket_pairs by (auto dest: index_pairs_members)
  finally show ?thesis .
qed

section \<open>Keys and the proteins behind them\<close>

lemma pair_key_set: "pair_key a b = (x, y) \<Longrightarrow> {x, y} = {a, b} \<and> x \<le> y"
  by (auto simp: pair_key_def split: if_splits)

lemma pair_key_strict: "a \<noteq> b \<Longrightarrow> pair_key a b = (x, y) \<Longrightarrow> x < y"
  by (auto simp: pair_key_def split: if_splits)

lemma key_unique:
  assumes "distinct (map protein_id ps)"
    and "(p, q) \<in> set (index_pairs ps)" and "(p', q') \<in> set (index_pairs ps)"
    and "pair_key (protein_id p) (protein_id q) = pair_key (protein_id p') (protein_id q')"
  shows "p = p' \<and> q = q'"
proof -
  from assms(1) have d: "distinct ps" and inj: "inj_on protein_id (set ps)"
    by (auto simp: distinct_map)
  from assms(2,3) have mem: "p \<in> set ps" "q \<in> set ps" "p' \<in> set ps" "q' \<in> set ps"
    by (auto dest: index_pairs_members)
  obtain x y where k: "pair_key (protein_id p) (protein_id q) = (x, y)"
    by (cases "pair_key (protein_id p) (protein_id q)")
  from pair_key_set [OF k] pair_key_set [of "protein_id p'" "protein_id q'" x y] k assms(4)
  have "{protein_id p, protein_id q} = {protein_id p', protein_id q'}" by simp
  then have "(protein_id p = protein_id p' \<and> protein_id q = protein_id q') \<or>
             (protein_id p = protein_id q' \<and> protein_id q = protein_id p')"
    by (auto simp: doubleton_eq_iff)
  then have "(p = p' \<and> q = q') \<or> (p = q' \<and> q = p')"
    using inj mem by (auto simp: inj_on_def)
  moreover have "\<not> (p = q' \<and> q = p')"
    using index_pairs_distinct [OF d assms(2)] assms(3) by auto
  ultimately show ?thesis by blast
qed

lemma map_of_fold_update_notin:
  "key \<notin> k ` set xs \<Longrightarrow>
   map_of (fold (\<lambda>x acc. AList.update (k x) (v x) acc) xs acc) key = map_of acc key"
  by (induction xs arbitrary: acc) (auto simp: update_conv')

lemma map_of_fold_update_in:
  assumes "distinct (map k xs)" and "x \<in> set xs"
  shows "map_of (fold (\<lambda>x acc. AList.update (k x) (v x) acc) xs acc) (k x) = Some (v x)"
  using assms
proof (induction xs arbitrary: acc)
  case Nil
  then show ?case by simp
next
  case (Cons y ys)
  show ?case
  proof (cases "x = y")
    case True
    with Cons.prems have "k x \<notin> k ` set ys" by auto
    from map_of_fold_update_notin [OF this, of v "AList.update (k y) (v y) acc"] True
    show ?thesis by (simp add: update_conv')
  next
    case False
    with Cons.prems have "distinct (map k ys)" "x \<in> set ys" by auto
    from Cons.IH [OF this] show ?thesis by simp
  qed
qed

lemma map_of_protein_domains:
  assumes "distinct (map protein_id ps)" and "p \<in> set ps"
  shows "map_of (protein_domains_of ps) (protein_id p) = Some (remdups (domains p))"
  unfolding protein_domains_of_def py_set_def
  using map_of_fold_update_in [OF assms, of "\<lambda>p. remdups (domains p)" "[]"] by simp

lemma set_set_union: "set (set_union a b) = set a \<union> set b"
  by (auto simp: set_union_def)

lemma distinct_set_union: "distinct a \<Longrightarrow> distinct b \<Longrightarrow> distinct (set_union a b)"
  by (auto simp: set_union_def)

lemma length_set_union_remdups:
  "length (set_union (remdups a) (remdups b)) = card (set a \<union> set b)"
proof -
  have "distinct (set_union (remdups a) (remdups b))"
    by (simp add: distinct_set_union)
  then have "length (set_union (remdups a) (remdups b)) = card (set (set_union (remdups a) (remdups b)))"
    by (simp add: distinct_card)
  then show ?thesis by (simp add: set_set_union)
qed

lemma length_set_intersection_remdups:
  "length (set_intersection (remdups a) (remdups b)) = card (set a \<inter> set b)"
proof -
  have "distinct (set_intersection (remdups a) (remdups b))"
    by (simp add: set_intersection_def)
  then have "length (set_intersection (remdups a) (remdups b)) =
               card (set (set_intersection (remdups a) (remdups b)))"
    by (simp add: distinct_card)
  moreover have "set (set_intersection (remdups a) (remdups b)) = set a \<inter> set b"
    by (auto simp: set_intersection_def)
  ultimately show ?thesis by simp
qed

section \<open>The entries of \<open>protein_pairs\<close>\<close>

lemma entry_protein_pair:
  assumes "distinct (map protein_id ps)"
    and "((a, b), (sd, n)) \<in> set (collect_pairs (build_domain_index ps))"
  shows "\<exists>p q. (p, q) \<in> set (index_pairs ps) \<and>
           pair_key (protein_id p) (protein_id q) = (a, b) \<and>
           set sd = set (domains p) \<inter> set (domains q) \<and>
           set (domains p) \<inter> set (domains q) \<noteq> {} \<and> distinct sd"
proof -
  let ?idx = "build_domain_index ps"
  let ?pp = "collect_pairs ?idx"
  from assms(2) have "(a, b) \<in> fst ` set ?pp" by force
  then have "(a, b) \<in> fst ` set (pair_events ?idx)" by (simp add: collect_pairs_keys)
  then obtain d where "((a, b), d) \<in> set (pair_events ?idx)" by auto
  then obtain p q where pq: "(p, q) \<in> set (index_pairs ps)"
    and d: "d \<in> set (domains p) \<inter> set (domains q)"
    and k: "pair_key (protein_id p) (protein_id q) = (a, b)"
    unfolding in_pair_events_index by auto
  have "map_of ?pp (a, b) = Some (sd, n)"
    using assms(2) collect_pairs_distinct [of ?idx] by simp
  then have sd: "shared_of ?pp (a, b) = sd" by (simp add: shared_of_def)
  have "set sd = {d. ((a, b), d) \<in> set (pair_events ?idx)}"
    using collect_pairs_shared [of ?idx "(a, b)"] sd by simp
  also have "\<dots> = set (domains p) \<inter> set (domains q)"
  proof (rule set_eqI)
    fix x
    show "x \<in> {d. ((a, b), d) \<in> set (pair_events ?idx)} \<longleftrightarrow>
          x \<in> set (domains p) \<inter> set (domains q)"
    proof
      assume "x \<in> {d. ((a, b), d) \<in> set (pair_events ?idx)}"
      then obtain p' q' where pq': "(p', q') \<in> set (index_pairs ps)"
        and x: "x \<in> set (domains p') \<inter> set (domains q')"
        and k': "pair_key (protein_id p') (protein_id q') = (a, b)"
        unfolding in_pair_events_index by auto
      from key_unique [OF assms(1) pq pq'] k k' have "p = p' \<and> q = q'" by simp
      with x show "x \<in> set (domains p) \<inter> set (domains q)" by simp
    next
      assume "x \<in> set (domains p) \<inter> set (domains q)"
      with pq k show "x \<in> {d. ((a, b), d) \<in> set (pair_events ?idx)}"
        unfolding in_pair_events_index by auto
    qed
  qed
  finally have s: "set sd = set (domains p) \<inter> set (domains q)" .
  have "distinct sd" using collect_pairs_shared_distinct [of ?idx "(a, b)"] sd by simp
  with pq k s d show ?thesis by blast
qed

lemma protein_pair_entry:
  assumes "(p, q) \<in> set (index_pairs ps)"
    and "set (domains p) \<inter> set (domains q) \<noteq> {}"
  shows "\<exists>sd n. (pair_key (protein_id p) (protein_id q), (sd, n))
                  \<in> set (collect_pairs (build_domain_index ps))"
proof -
  let ?idx = "build_domain_index ps"
  from assms(2) obtain d where "d \<in> set (domains p) \<inter> set (domains q)" by auto
  with assms(1) have "(pair_key (protein_id p) (protein_id q), d) \<in> set (pair_events ?idx)"
    unfolding in_pair_events_index by auto
  then have "pair_key (protein_id p) (protein_id q) \<in> fst ` set (pair_events ?idx)" by force
  then have "pair_key (protein_id p) (protein_id q) \<in> fst ` set (collect_pairs ?idx)"
    by (simp add: collect_pairs_keys)
  then show ?thesis by force
qed

lemma entry_edges_eq:
  assumes "distinct (map protein_id ps)"
    and "(p, q) \<in> set (index_pairs ps)"
    and "pair_key (protein_id p) (protein_id q) = (a, b)"
    and "set sd = set (domains p) \<inter> set (domains q)"
    and "set (domains p) \<inter> set (domains q) \<noteq> {}"
    and "distinct sd"
  shows "entry_edges (protein_domains_of ps) ms ((a, b), (sd, n)) =
           (if jaccard_of p q \<ge> ms then [make_edge a b (jaccard_of p q) sd] else [])"
proof -
  from assms(2) have mem: "p \<in> set ps" "q \<in> set ps" by (auto dest: index_pairs_members)
  have dp: "map_of (protein_domains_of ps) (protein_id p) = Some (remdups (domains p))"
    and dq: "map_of (protein_domains_of ps) (protein_id q) = Some (remdups (domains q))"
    using map_of_protein_domains [OF assms(1)] mem by auto
  let ?u = "set_union (the (map_of (protein_domains_of ps) a)) (the (map_of (protein_domains_of ps) b))"
  from assms(3) have "(a = protein_id p \<and> b = protein_id q) \<or> (a = protein_id q \<and> b = protein_id p)"
    by (auto simp: pair_key_def split: if_splits)
  then have lu: "length ?u = card (set (domains p) \<union> set (domains q))"
    using dp dq by (auto simp: length_set_union_remdups Un_commute)
  have "card (set (domains p) \<union> set (domains q)) \<noteq> 0"
    using assms(5) by auto
  with lu have une: "?u \<noteq> []" by auto
  have ls: "length sd = card (set (domains p) \<inter> set (domains q))"
    using assms(4,6) by (metis distinct_card)
  have j: "of_int (int (length sd)) / of_int (int (length ?u)) = jaccard_of p q"
    by (simp add: jaccard_of_def ls lu)
  show ?thesis
    unfolding entry_edges_def prod.case Let_def j using une by simp
qed

section \<open>The two edge loops\<close>

lemma edges_loop_ok:
  assumes "\<forall>entry \<in> set pp. fst (fst entry) \<in> dom (map_of pd) \<and> snd (fst entry) \<in> dom (map_of pd)"
  shows "edges_loop pd ms pp acc = Inr (acc @ concat (map (entry_edges pd ms) pp))"
  using assms
proof (induction pp arbitrary: acc)
  case Nil
  then show ?case by simp
next
  case (Cons entry pp)
  obtain a b sd n where e: "entry = ((a, b), (sd, n))"
    by (metis surj_pair)
  from Cons.prems e obtain d1 d2 where d: "map_of pd a = Some d1" "map_of pd b = Some d2"
    by auto
  from Cons.prems have r: "\<forall>entry \<in> set pp. fst (fst entry) \<in> dom (map_of pd) \<and>
      snd (fst entry) \<in> dom (map_of pd)" by simp
  show ?case
    using Cons.IH [OF r] d
    by (simp add: e getitem_def py_div_def entry_edges_def Let_def)
qed

lemma pair_edge_eq:
  "pair_edge p q ms =
     Inr (if set (domains p) \<inter> set (domains q) \<noteq> {} \<and> jaccard_of p q \<ge> ms
          then [make_edge (protein_id p) (protein_id q) (jaccard_of p q)
                  (set_intersection (py_set (domains p)) (py_set (domains q)))]
          else [])"
proof -
  have i: "set_intersection (py_set (domains p)) (py_set (domains q)) = [] \<longleftrightarrow>
             set (domains p) \<inter> set (domains q) = {}"
    by (auto simp: set_intersection_def py_set_def filter_empty_conv)
  have li: "length (set_intersection (py_set (domains p)) (py_set (domains q))) =
              card (set (domains p) \<inter> set (domains q))"
    unfolding py_set_def by (rule length_set_intersection_remdups)
  have lu: "length (set_union (py_set (domains p)) (py_set (domains q))) =
              card (set (domains p) \<union> set (domains q))"
    unfolding py_set_def by (rule length_set_union_remdups)
  have e: "py_set (domains p) = [] \<or> py_set (domains q) = [] \<Longrightarrow>
             set (domains p) \<inter> set (domains q) = {}"
    by (auto simp: py_set_def)
  have nz: "set (domains p) \<inter> set (domains q) \<noteq> {} \<Longrightarrow>
              card (set (domains p) \<union> set (domains q)) \<noteq> 0"
    by auto
  show ?thesis
  proof (cases "set (domains p) \<inter> set (domains q) = {}")
    case True
    then show ?thesis
      unfolding pair_edge_def Let_def using i by simp
  next
    case False
    with e have ne: "\<not> (py_set (domains p) = [] \<or> py_set (domains q) = [])" by blast
    from False i have ni: "set_intersection (py_set (domains p)) (py_set (domains q)) \<noteq> []"
      by simp
    have dv: "py_div (int (length (set_intersection (py_set (domains p)) (py_set (domains q)))))
                (int (length (set_union (py_set (domains p)) (py_set (domains q))))) =
              Inr (jaccard_of p q)"
      using nz [OF False] by (simp add: py_div_def li lu jaccard_of_def)
    show ?thesis
      unfolding pair_edge_def Let_def using ne ni dv False by simp
  qed
qed

lemma pair_edge_list_eq:
  "pair_edge_list p q ms =
     (if set (domains p) \<inter> set (domains q) \<noteq> {} \<and> jaccard_of p q \<ge> ms
      then [make_edge (protein_id p) (protein_id q) (jaccard_of p q)
              (set_intersection (py_set (domains p)) (py_set (domains q)))]
      else [])"
  by (simp add: pair_edge_list_def pair_edge_eq)

lemma pair_edge_Inr: "pair_edge p q ms = Inr (pair_edge_list p q ms)"
  by (simp add: pair_edge_list_def pair_edge_eq)

lemma inner_pairs_ok:
  "inner_pairs p rest ms acc = Inr (acc @ concat (map (\<lambda>q. pair_edge_list p q ms) rest))"
  by (induction rest arbitrary: acc) (simp_all add: pair_edge_Inr)

lemma all_pairs_edges_ok:
  "all_pairs_edges ps ms acc =
     Inr (acc @ concat (map (\<lambda>(p, q). pair_edge_list p q ms) (index_pairs ps)))"
  by (induction ps arbitrary: acc) (simp_all add: inner_pairs_ok comp_def)

section \<open>The edges of the inverted-index computation\<close>

lemma compute_similarities_ok:
  assumes "distinct (map protein_id ps)"
  shows "compute_similarities ps (build_domain_index ps) ms =
           Inr (concat (map (entry_edges (protein_domains_of ps) ms)
                          (collect_pairs (build_domain_index ps))))"
proof -
  have "\<forall>entry \<in> set (collect_pairs (build_domain_index ps)).
          fst (fst entry) \<in> dom (map_of (protein_domains_of ps)) \<and>
          snd (fst entry) \<in> dom (map_of (protein_domains_of ps))"
  proof
    fix entry assume en: "entry \<in> set (collect_pairs (build_domain_index ps))"
    obtain a b sd n where e: "entry = ((a, b), (sd, n))" by (metis surj_pair)
    from entry_protein_pair [OF assms en [unfolded e]] obtain p q where
      pq: "(p, q) \<in> set (index_pairs ps)" and k: "pair_key (protein_id p) (protein_id q) = (a, b)"
      by blast
    from pq have mem: "p \<in> set ps" "q \<in> set ps" by (auto dest: index_pairs_members)
    from k have "{a, b} = {protein_id p, protein_id q}" by (rule pair_key_set [THEN conjunct1])
    moreover have "protein_id p \<in> dom (map_of (protein_domains_of ps))"
      "protein_id q \<in> dom (map_of (protein_domains_of ps))"
      using map_of_protein_domains [OF assms] mem by auto
    ultimately show "fst (fst entry) \<in> dom (map_of (protein_domains_of ps)) \<and>
          snd (fst entry) \<in> dom (map_of (protein_domains_of ps))"
      unfolding e by (auto simp: doubleton_eq_iff)
  qed
  from edges_loop_ok [OF this, of ms "[]"] show ?thesis
    by (simp add: compute_similarities_def)
qed

lemma inverted_edge_sound:
  assumes "distinct (map protein_id ps)"
    and "e \<in> set (concat (map (entry_edges (protein_domains_of ps) ms)
                            (collect_pairs (build_domain_index ps))))"
  shows "\<exists>p q. (p, q) \<in> set (index_pairs ps) \<and>
           (source_protein_id e, target_protein_id e) = pair_key (protein_id p) (protein_id q) \<and>
           set (shared_domains e) = set (domains p) \<inter> set (domains q) \<and>
           set (domains p) \<inter> set (domains q) \<noteq> {} \<and>
           jaccard_similarity e = jaccard_of p q \<and> weight e = jaccard_of p q \<and>
           jaccard_of p q \<ge> ms \<and>
           shared_domain_count e = int (card (set (domains p) \<inter> set (domains q)))"
proof -
  from assms(2) obtain entry where en: "entry \<in> set (collect_pairs (build_domain_index ps))"
    and ee: "e \<in> set (entry_edges (protein_domains_of ps) ms entry)" by auto
  obtain a b sd n where e: "entry = ((a, b), (sd, n))" by (metis surj_pair)
  from entry_protein_pair [OF assms(1) en [unfolded e]] obtain p q where
    pq: "(p, q) \<in> set (index_pairs ps)" and k: "pair_key (protein_id p) (protein_id q) = (a, b)"
    and s: "set sd = set (domains p) \<inter> set (domains q)"
    and ne: "set (domains p) \<inter> set (domains q) \<noteq> {}" and d: "distinct sd"
    by blast
  from ee entry_edges_eq [OF assms(1) pq k s ne d, of ms n]
  have j: "jaccard_of p q \<ge> ms" and eq: "e = make_edge a b (jaccard_of p q) sd"
    unfolding e by (auto split: if_splits)
  have "length sd = card (set (domains p) \<inter> set (domains q))"
    using s d by (metis distinct_card)
  with pq k s ne j eq show ?thesis
    by (intro exI [of _ p] exI [of _ q]) (simp add: make_edge_def)
qed

lemma inverted_edge_complete:
  assumes "distinct (map protein_id ps)"
    and "(p, q) \<in> set (index_pairs ps)"
    and "set (domains p) \<inter> set (domains q) \<noteq> {}"
    and "jaccard_of p q \<ge> ms"
  shows "\<exists>e \<in> set (concat (map (entry_edges (protein_domains_of ps) ms)
                              (collect_pairs (build_domain_index ps)))).
           (source_protein_id e, target_protein_id e) = pair_key (protein_id p) (protein_id q) \<and>
           set (shared_domains e) = set (domains p) \<inter> set (domains q) \<and>
           jaccard_similarity e = jaccard_of p q"
proof -
  obtain a b where k: "pair_key (protein_id p) (protein_id q) = (a, b)"
    by (cases "pair_key (protein_id p) (protein_id q)")
  from protein_pair_entry [OF assms(2,3)] k obtain sd n where
    en: "((a, b), (sd, n)) \<in> set (collect_pairs (build_domain_index ps))" by auto
  from entry_protein_pair [OF assms(1) en] obtain p' q' where
    pq': "(p', q') \<in> set (index_pairs ps)"
    and k': "pair_key (protein_id p') (protein_id q') = (a, b)"
    and s': "set sd = set (domains p') \<inter> set (domains q')" and d: "distinct sd"
    by blast
  from key_unique [OF assms(1,2) pq'] k k' have "p = p' \<and> q = q'" by simp
  with s' have s: "set sd = set (domains p) \<inter> set (domains q)" by simp
  from entry_edges_eq [OF assms(1,2) k s assms(3) d, of ms n] assms(4)
  have "make_edge a b (jaccard_of p q) sd
          \<in> set (entry_edges (protein_domains_of ps) ms ((a, b), (sd, n)))" by simp
  with en have "make_edge a b (jaccard_of p q) sd
          \<in> set (concat (map (entry_edges (protein_domains_of ps) ms)
                              (collect_pairs (build_domain_index ps))))"
    by auto
  then show ?thesis
    using k s by (intro bexI [of _ "make_edge a b (jaccard_of p q) sd"]) (auto simp: make_edge_def)
qed

lemma entry_edges_keys:
  "map (\<lambda>e. (source_protein_id e, target_protein_id e)) (concat (map (entry_edges pd ms) pp)) =
     map fst (filter (\<lambda>entry. entry_edges pd ms entry \<noteq> []) pp)"
proof (induction pp)
  case Nil
  then show ?case by simp
next
  case (Cons entry pp)
  obtain a b sd n where e: "entry = ((a, b), (sd, n))" by (metis surj_pair)
  have "map (\<lambda>e. (source_protein_id e, target_protein_id e)) (entry_edges pd ms entry) =
          (if entry_edges pd ms entry \<noteq> [] then [fst entry] else [])"
    by (simp add: e entry_edges_def Let_def make_edge_def)
  with Cons.IH show ?case by simp
qed

lemma inverted_edges_distinct:
  "distinct (map (\<lambda>e. (source_protein_id e, target_protein_id e))
      (concat (map (entry_edges pd ms) (collect_pairs idx))))"
  unfolding entry_edges_keys
  by (rule distinct_map_filter) (rule collect_pairs_distinct)

section \<open>No unordered pair twice\<close>

lemma pair_edge_list_pairs:
  "map (\<lambda>e. {source_protein_id e, target_protein_id e})
       (concat (map (\<lambda>(p, q). pair_edge_list p q ms) pairs)) =
     map (\<lambda>(p, q). {protein_id p, protein_id q})
       (filter (\<lambda>(p, q). pair_edge_list p q ms \<noteq> []) pairs)"
proof (induction pairs)
  case Nil
  then show ?case by simp
next
  case (Cons x pairs)
  obtain p q where x: "x = (p, q)" by (cases x)
  have "map (\<lambda>e. {source_protein_id e, target_protein_id e}) (pair_edge_list p q ms) =
          (if pair_edge_list p q ms \<noteq> [] then [{protein_id p, protein_id q}] else [])"
    by (simp add: pair_edge_list_eq make_edge_def)
  with Cons.IH show ?case by (simp add: x)
qed

lemma all_pairs_distinct:
  assumes "distinct (map protein_id ps)"
  shows "distinct (map (\<lambda>e. {source_protein_id e, target_protein_id e})
           (concat (map (\<lambda>(p, q). pair_edge_list p q ms) (index_pairs ps))))"
proof -
  from assms have d: "distinct ps" and inj: "inj_on protein_id (set ps)"
    by (auto simp: distinct_map)
  have "inj_on (\<lambda>(p, q). {protein_id p, protein_id q}) (set (index_pairs ps))"
  proof (rule inj_onI)
    fix x y assume x: "x \<in> set (index_pairs ps)" and y: "y \<in> set (index_pairs ps)"
      and eq: "(\<lambda>(p, q). {protein_id p, protein_id q}) x = (\<lambda>(p, q). {protein_id p, protein_id q}) y"
    obtain p q where xp: "x = (p, q)" by (cases x)
    obtain p' q' where yp: "y = (p', q')" by (cases y)
    from x y xp yp have mem: "p \<in> set ps" "q \<in> set ps" "p' \<in> set ps" "q' \<in> set ps"
      by (auto dest: index_pairs_members)
    from eq xp yp have "{protein_id p, protein_id q} = {protein_id p', protein_id q'}" by simp
    then have "(protein_id p = protein_id p' \<and> protein_id q = protein_id q') \<or>
               (protein_id p = protein_id q' \<and> protein_id q = protein_id p')"
      by (auto simp: doubleton_eq_iff)
    with inj mem have "(p = p' \<and> q = q') \<or> (p = q' \<and> q = p')"
      by (auto simp: inj_on_def)
    moreover have "\<not> (p = q' \<and> q = p')"
      using index_pairs_distinct [OF d x [unfolded xp]] y yp by auto
    ultimately show "x = y" by (simp add: xp yp)
  qed
  with distinct_index_pairs [OF d]
  have "distinct (map (\<lambda>(p, q). {protein_id p, protein_id q}) (index_pairs ps))"
    by (rule distinct_map [THEN iffD2, OF conjI])
  then show ?thesis
    unfolding pair_edge_list_pairs by (rule distinct_map_filter)
qed

lemma length_from_views:
  assumes "distinct (map (\<lambda>e. {source_protein_id e, target_protein_id e}) xs)"
    and "distinct (map (\<lambda>e. {source_protein_id e, target_protein_id e}) ys)"
    and "edge_view ` set xs = edge_view ` set ys"
  shows "length xs = length ys"
proof -
  have v: "distinct (map edge_view zs)"
    if "distinct (map (\<lambda>e. {source_protein_id e, target_protein_id e}) zs)"
    for zs :: "('a, 'b) similarity_edge list"
  proof -
    have "map (\<lambda>e. {source_protein_id e, target_protein_id e}) zs = map fst (map edge_view zs)"
      by (simp add: edge_view_def comp_def)
    with that show ?thesis by (metis distinct_map)
  qed
  have "length xs = card (set (map edge_view xs))"
    using v [OF assms(1)] by (metis distinct_card length_map)
  also have "\<dots> = card (set (map edge_view ys))" using assms(3) by simp
  also have "\<dots> = length ys"
    using v [OF assms(2)] by (metis distinct_card length_map)
  finally show ?thesis .
qed

lemma ordered_distinct_unordered:
  fixes es :: "('p::linorder, 'd) similarity_edge list"
  assumes "distinct (map (\<lambda>e. (source_protein_id e, target_protein_id e)) es)"
    and "\<forall>e \<in> set es. source_protein_id e < target_protein_id e"
  shows "distinct (map (\<lambda>e. {source_protein_id e, target_protein_id e}) es)"
proof -
  let ?st = "\<lambda>e. (source_protein_id e, target_protein_id e)"
  have "inj_on (\<lambda>(a, b). {a, b}) (set (map ?st es))"
  proof (rule inj_onI)
    fix x y assume x: "x \<in> set (map ?st es)" and y: "y \<in> set (map ?st es)"
      and eq: "(\<lambda>(a, b). {a, b}) x = (\<lambda>(a, b). {a, b}) y"
    obtain a b where xa: "x = (a, b)" by (cases x)
    obtain c d where yc: "y = (c, d)" by (cases y)
    from x xa assms(2) have "a < b" by auto
    moreover from y yc assms(2) have "c < d" by auto
    moreover from eq xa yc have "{a, b} = {c, d}" by simp
    ultimately show "x = y" unfolding xa yc by (auto simp: doubleton_eq_iff)
  qed
  with assms(1) have "distinct (map (\<lambda>(a, b). {a, b}) (map ?st es))"
    by (rule distinct_map [THEN iffD2, OF conjI])
  then show ?thesis by (simp only: map_map comp_def prod.case)
qed

section \<open>Main results on the similarity edges\<close>

text \<open>
  C4. For proteins with pairwise distinct \<open>protein_id\<close>s and any threshold, the
  inverted-index computation and the all-pairs loop both return, and their edges
  have the same unordered pairs of endpoints, each with the same similarity and the
  same set of shared domains; both lists have the same number of edges.
\<close>

theorem inverted_index_equals_all_pairs:
  assumes "distinct (map protein_id ps)"
  shows "\<exists>edges naive.
           compute_similarities ps (build_domain_index ps) ms = Inr edges \<and>
           all_pairs_edges ps ms [] = Inr naive \<and>
           edge_view ` set edges = edge_view ` set naive \<and>
           length edges = length naive"
proof -
  let ?edges = "concat (map (entry_edges (protein_domains_of ps) ms)
                          (collect_pairs (build_domain_index ps)))"
  let ?naive = "concat (map (\<lambda>(p, q). pair_edge_list p q ms) (index_pairs ps))"
  have c: "compute_similarities ps (build_domain_index ps) ms = Inr ?edges"
    by (rule compute_similarities_ok [OF assms])
  have a: "all_pairs_edges ps ms [] = Inr ?naive"
    using all_pairs_edges_ok [of ps ms "[]"] by simp
  have naive_iff: "e \<in> set ?naive \<longleftrightarrow>
      (\<exists>p q. (p, q) \<in> set (index_pairs ps) \<and>
         set (domains p) \<inter> set (domains q) \<noteq> {} \<and> jaccard_of p q \<ge> ms \<and>
         e = make_edge (protein_id p) (protein_id q) (jaccard_of p q)
               (set_intersection (py_set (domains p)) (py_set (domains q))))" for e
    by (auto simp: pair_edge_list_eq split: if_splits)
  have view_naive: "edge_view (make_edge (protein_id p) (protein_id q) (jaccard_of p q)
               (set_intersection (py_set (domains p)) (py_set (domains q)))) =
      ({protein_id p, protein_id q}, jaccard_of p q, set (domains p) \<inter> set (domains q))" for p q
    by (auto simp: edge_view_def make_edge_def set_intersection_def py_set_def)
  have views: "edge_view ` set ?edges = edge_view ` set ?naive"
  proof (intro set_eqI iffI)
    fix v assume "v \<in> edge_view ` set ?edges"
    then obtain e where e: "e \<in> set ?edges" and v: "v = edge_view e" by blast
    from inverted_edge_sound [OF assms e] obtain p q where
      pq: "(p, q) \<in> set (index_pairs ps)"
      and k: "(source_protein_id e, target_protein_id e) = pair_key (protein_id p) (protein_id q)"
      and s: "set (shared_domains e) = set (domains p) \<inter> set (domains q)"
      and ne: "set (domains p) \<inter> set (domains q) \<noteq> {}"
      and j: "jaccard_similarity e = jaccard_of p q" and m: "jaccard_of p q \<ge> ms"
      by blast
    from pair_key_set [OF k [symmetric]]
    have "{source_protein_id e, target_protein_id e} = {protein_id p, protein_id q}" by simp
    with s j have "edge_view e =
        ({protein_id p, protein_id q}, jaccard_of p q, set (domains p) \<inter> set (domains q))"
      by (simp add: edge_view_def)
    with view_naive [of p q] have "edge_view e =
        edge_view (make_edge (protein_id p) (protein_id q) (jaccard_of p q)
               (set_intersection (py_set (domains p)) (py_set (domains q))))" by simp
    moreover have "make_edge (protein_id p) (protein_id q) (jaccard_of p q)
               (set_intersection (py_set (domains p)) (py_set (domains q))) \<in> set ?naive"
      unfolding naive_iff using pq ne m by blast
    ultimately show "v \<in> edge_view ` set ?naive" using v by blast
  next
    fix v assume "v \<in> edge_view ` set ?naive"
    then obtain e' where e': "e' \<in> set ?naive" and v: "v = edge_view e'" by blast
    from e' obtain p q where pq: "(p, q) \<in> set (index_pairs ps)"
      and ne: "set (domains p) \<inter> set (domains q) \<noteq> {}" and m: "jaccard_of p q \<ge> ms"
      and eq: "e' = make_edge (protein_id p) (protein_id q) (jaccard_of p q)
               (set_intersection (py_set (domains p)) (py_set (domains q)))"
      unfolding naive_iff by blast
    from inverted_edge_complete [OF assms pq ne m] obtain e where e: "e \<in> set ?edges"
      and k: "(source_protein_id e, target_protein_id e) = pair_key (protein_id p) (protein_id q)"
      and s: "set (shared_domains e) = set (domains p) \<inter> set (domains q)"
      and j: "jaccard_similarity e = jaccard_of p q"
      by blast
    from pair_key_set [OF k [symmetric]]
    have "{source_protein_id e, target_protein_id e} = {protein_id p, protein_id q}" by simp
    with s j have "edge_view e =
        ({protein_id p, protein_id q}, jaccard_of p q, set (domains p) \<inter> set (domains q))"
      by (simp add: edge_view_def)
    with view_naive [of p q] eq v have "v = edge_view e" by simp
    with e show "v \<in> edge_view ` set ?edges" by blast
  qed
  have sound: "source_protein_id e < target_protein_id e" if e: "e \<in> set ?edges" for e
  proof -
    from assms have d: "distinct ps" and inj: "inj_on protein_id (set ps)"
      by (auto simp: distinct_map)
    from inverted_edge_sound [OF assms e] obtain p q where
      pq: "(p, q) \<in> set (index_pairs ps)"
      and k: "(source_protein_id e, target_protein_id e) = pair_key (protein_id p) (protein_id q)"
      by blast
    from pq have mem: "p \<in> set ps" "q \<in> set ps" by (auto dest: index_pairs_members)
    from index_pairs_distinct [OF d pq] have "p \<noteq> q" by simp
    with inj mem have "protein_id p \<noteq> protein_id q" by (auto simp: inj_on_def)
    from pair_key_strict [OF this k [symmetric]] show ?thesis .
  qed
  have de: "distinct (map (\<lambda>e. {source_protein_id e, target_protein_id e}) ?edges)"
    by (rule ordered_distinct_unordered [OF inverted_edges_distinct]) (use sound in blast)
  have dn: "distinct (map (\<lambda>e. {source_protein_id e, target_protein_id e}) ?naive)"
    by (rule all_pairs_distinct [OF assms])
  from length_from_views [OF de dn views] c a views show ?thesis by blast
qed

text \<open>
  C5. For proteins with pairwise distinct \<open>protein_id\<close>s and any threshold (0
  included), the inverted-index computation returns; every edge has a non-empty list
  of shared domains, a similarity of at least the threshold, its source below its
  target in the order of the identifiers, and as endpoints two proteins of the input
  whose common domains are exactly its shared domains; two proteins whose
  identifiers are the endpoints of an edge have a common domain, so proteins with
  disjoint domain sets (an empty one in particular) get no edge; and no two edges of
  the list have the same unordered pair of endpoints.
\<close>

theorem similarity_edges_invariants:
  assumes "distinct (map protein_id ps)"
  shows "\<exists>edges.
           compute_similarities ps (build_domain_index ps) ms = Inr edges \<and>
           (\<forall>e \<in> set edges.
              shared_domains e \<noteq> [] \<and> jaccard_similarity e \<ge> ms \<and>
              source_protein_id e < target_protein_id e \<and>
              (\<exists>p \<in> set ps. \<exists>q \<in> set ps.
                 protein_id p = source_protein_id e \<and> protein_id q = target_protein_id e \<and>
                 set (shared_domains e) = set (domains p) \<inter> set (domains q))) \<and>
           (\<forall>e \<in> set edges. \<forall>p \<in> set ps. \<forall>q \<in> set ps.
              {protein_id p, protein_id q} = {source_protein_id e, target_protein_id e} \<longrightarrow>
              set (domains p) \<inter> set (domains q) \<noteq> {}) \<and>
           distinct (map (\<lambda>e. {source_protein_id e, target_protein_id e}) edges)"
proof -
  let ?edges = "concat (map (entry_edges (protein_domains_of ps) ms)
                          (collect_pairs (build_domain_index ps)))"
  from assms have d: "distinct ps" and inj: "inj_on protein_id (set ps)"
    by (auto simp: distinct_map)
  have c: "compute_similarities ps (build_domain_index ps) ms = Inr ?edges"
    by (rule compute_similarities_ok [OF assms])
  have sound: "\<exists>p q. (p, q) \<in> set (index_pairs ps) \<and> p \<in> set ps \<and> q \<in> set ps \<and>
      protein_id p \<noteq> protein_id q \<and>
      (source_protein_id e, target_protein_id e) = pair_key (protein_id p) (protein_id q) \<and>
      set (shared_domains e) = set (domains p) \<inter> set (domains q) \<and>
      set (domains p) \<inter> set (domains q) \<noteq> {} \<and>
      jaccard_similarity e = jaccard_of p q \<and> jaccard_of p q \<ge> ms" if "e \<in> set ?edges" for e
  proof -
    from inverted_edge_sound [OF assms that] obtain p q where
      pq: "(p, q) \<in> set (index_pairs ps)"
      and r: "(source_protein_id e, target_protein_id e) = pair_key (protein_id p) (protein_id q)"
        "set (shared_domains e) = set (domains p) \<inter> set (domains q)"
        "set (domains p) \<inter> set (domains q) \<noteq> {}"
        "jaccard_similarity e = jaccard_of p q" "jaccard_of p q \<ge> ms"
      by blast
    from pq have mem: "p \<in> set ps" "q \<in> set ps" by (auto dest: index_pairs_members)
    from index_pairs_distinct [OF d pq] have "p \<noteq> q" by simp
    with inj mem have "protein_id p \<noteq> protein_id q" by (auto simp: inj_on_def)
    with pq mem r show ?thesis by blast
  qed
  have 1: "\<forall>e \<in> set ?edges. shared_domains e \<noteq> [] \<and> jaccard_similarity e \<ge> ms \<and>
              source_protein_id e < target_protein_id e \<and>
              (\<exists>p \<in> set ps. \<exists>q \<in> set ps.
                 protein_id p = source_protein_id e \<and> protein_id q = target_protein_id e \<and>
                 set (shared_domains e) = set (domains p) \<inter> set (domains q))"
  proof
    fix e assume "e \<in> set ?edges"
    from sound [OF this] obtain p q where mem: "p \<in> set ps" "q \<in> set ps"
      and n: "protein_id p \<noteq> protein_id q"
      and k: "(source_protein_id e, target_protein_id e) = pair_key (protein_id p) (protein_id q)"
      and s: "set (shared_domains e) = set (domains p) \<inter> set (domains q)"
      and ne: "set (domains p) \<inter> set (domains q) \<noteq> {}"
      and j: "jaccard_similarity e = jaccard_of p q" "jaccard_of p q \<ge> ms"
      by blast
    from s ne have a: "shared_domains e \<noteq> []" by auto
    from pair_key_strict [OF n k [symmetric]]
    have b: "source_protein_id e < target_protein_id e" .
    from k have "(protein_id p = source_protein_id e \<and> protein_id q = target_protein_id e) \<or>
                 (protein_id q = source_protein_id e \<and> protein_id p = target_protein_id e)"
      by (auto simp: pair_key_def split: if_splits)
    then have c: "\<exists>p \<in> set ps. \<exists>q \<in> set ps.
                 protein_id p = source_protein_id e \<and> protein_id q = target_protein_id e \<and>
                 set (shared_domains e) = set (domains p) \<inter> set (domains q)"
    proof
      assume "protein_id p = source_protein_id e \<and> protein_id q = target_protein_id e"
      with mem s show ?thesis by blast
    next
      assume "protein_id q = source_protein_id e \<and> protein_id p = target_protein_id e"
      moreover from s have "set (shared_domains e) = set (domains q) \<inter> set (domains p)"
        by (simp add: Int_commute)
      ultimately show ?thesis using mem by blast
    qed
    from a b c j show "shared_domains e \<noteq> [] \<and> jaccard_similarity e \<ge> ms \<and>
              source_protein_id e < target_protein_id e \<and>
              (\<exists>p \<in> set ps. \<exists>q \<in> set ps.
                 protein_id p = source_protein_id e \<and> protein_id q = target_protein_id e \<and>
                 set (shared_domains e) = set (domains p) \<inter> set (domains q))"
      by simp
  qed
  have 2: "\<forall>e \<in> set ?edges. \<forall>p \<in> set ps. \<forall>q \<in> set ps.
              {protein_id p, protein_id q} = {source_protein_id e, target_protein_id e} \<longrightarrow>
              set (domains p) \<inter> set (domains q) \<noteq> {}"
  proof (intro ballI impI)
    fix e p q
    assume e: "e \<in> set ?edges" and p: "p \<in> set ps" and q: "q \<in> set ps"
      and eq: "{protein_id p, protein_id q} = {source_protein_id e, target_protein_id e}"
    from sound [OF e] obtain p' q' where mem: "p' \<in> set ps" "q' \<in> set ps"
      and k: "(source_protein_id e, target_protein_id e) = pair_key (protein_id p') (protein_id q')"
      and ne: "set (domains p') \<inter> set (domains q') \<noteq> {}"
      by blast
    from pair_key_set [OF k [symmetric]] eq
    have "{protein_id p, protein_id q} = {protein_id p', protein_id q'}" by simp
    then have "(protein_id p = protein_id p' \<and> protein_id q = protein_id q') \<or>
               (protein_id p = protein_id q' \<and> protein_id q = protein_id p')"
      by (auto simp: doubleton_eq_iff)
    with inj p q mem have "(p = p' \<and> q = q') \<or> (p = q' \<and> q = p')"
      by (auto simp: inj_on_def)
    with ne show "set (domains p) \<inter> set (domains q) \<noteq> {}" by auto
  qed
  have 3: "distinct (map (\<lambda>e. {source_protein_id e, target_protein_id e}) ?edges)"
    by (rule ordered_distinct_unordered [OF inverted_edges_distinct]) (use 1 in blast)
  from c 1 2 3 show ?thesis by blast
qed

lemmas graph_eval = compute_similarities_def build_domain_index_def index_append_def
  protein_domains_of_def collect_pairs_def bucket_pairs_def record_pair_def pair_key_def
  set_add_def set_union_def set_intersection_def py_set_def make_edge_def getitem_def
  py_div_def pair_edge_def abc_proteins_def Let_def

lemma abc_compute:
  "compute_similarities abc_proteins (build_domain_index abc_proteins) (1 / 10) =
     Inr [\<lparr>source_protein_id = ''A'', target_protein_id = ''B'', weight = 1 / 3,
           jaccard_similarity = 1 / 3, shared_domains = [''d2''], shared_domain_count = 1\<rparr>,
          \<lparr>source_protein_id = ''B'', target_protein_id = ''C'', weight = 1 / 3,
           jaccard_similarity = 1 / 3, shared_domains = [''d3''], shared_domain_count = 1\<rparr>]"
  by (simp add: graph_eval)

lemma abc_all_pairs:
  "all_pairs_edges abc_proteins (1 / 10) [] =
     Inr [\<lparr>source_protein_id = ''A'', target_protein_id = ''B'', weight = 1 / 3,
           jaccard_similarity = 1 / 3, shared_domains = [''d2''], shared_domain_count = 1\<rparr>,
          \<lparr>source_protein_id = ''B'', target_protein_id = ''C'', weight = 1 / 3,
           jaccard_similarity = 1 / 3, shared_domains = [''d3''], shared_domain_count = 1\<rparr>]"
  by (simp add: graph_eval)

lemma abc_distinct: "distinct (map protein_id abc_proteins)"
  by (simp add: abc_proteins_def)

theorem inverted_index_equals_all_pairs_witness:
  "distinct (map protein_id abc_proteins) \<and>
   compute_similarities abc_proteins (build_domain_index abc_proteins) (1 / 10) =
     Inr [\<lparr>source_protein_id = ''A'', target_protein_id = ''B'', weight = 1 / 3,
           jaccard_similarity = 1 / 3, shared_domains = [''d2''], shared_domain_count = 1\<rparr>,
          \<lparr>source_protein_id = ''B'', target_protein_id = ''C'', weight = 1 / 3,
           jaccard_similarity = 1 / 3, shared_domains = [''d3''], shared_domain_count = 1\<rparr>] \<and>
   (\<exists>edges naive.
      compute_similarities abc_proteins (build_domain_index abc_proteins) (1 / 10) = Inr edges \<and>
      all_pairs_edges abc_proteins (1 / 10) [] = Inr naive \<and>
      edge_view ` set edges = edge_view ` set naive \<and>
      length edges = length naive)"
  using inverted_index_equals_all_pairs [OF abc_distinct, of "1 / 10"] abc_distinct abc_compute
  by blast

theorem similarity_edges_invariants_witness:
  "distinct (map protein_id abc_proteins) \<and>
   compute_similarities abc_proteins (build_domain_index abc_proteins) (1 / 10) =
     Inr [\<lparr>source_protein_id = ''A'', target_protein_id = ''B'', weight = 1 / 3,
           jaccard_similarity = 1 / 3, shared_domains = [''d2''], shared_domain_count = 1\<rparr>,
          \<lparr>source_protein_id = ''B'', target_protein_id = ''C'', weight = 1 / 3,
           jaccard_similarity = 1 / 3, shared_domains = [''d3''], shared_domain_count = 1\<rparr>] \<and>
   (\<exists>edges.
      compute_similarities abc_proteins (build_domain_index abc_proteins) (1 / 10) = Inr edges \<and>
      edges \<noteq> [] \<and>
      distinct (map (\<lambda>e. {source_protein_id e, target_protein_id e}) edges))"
proof -
  from similarity_edges_invariants [OF abc_distinct, of "1 / 10"] obtain edges where
    c: "compute_similarities abc_proteins (build_domain_index abc_proteins) (1 / 10) = Inr edges"
    and d: "distinct (map (\<lambda>e. {source_protein_id e, target_protein_id e}) edges)"
    by blast
  from c abc_compute have "edges \<noteq> []" by auto
  with c d abc_distinct abc_compute show ?thesis by blast
qed

end
